theory Spec2Isabelle
  imports Complex_Main "HOL-Library.Log_Nat"
begin

section \<open>Go values: errors, panics, outcomes\<close>

text \<open>
  The program is \<^verbatim>\<open>src/main.go\<close>. A Go function of this program either returns
  (with a nil or a non-nil \<^verbatim>\<open>error\<close>) or panics at run time (index out of range, failed type
  assertion, integer division by zero). The three ways to leave a function are kept apart.
\<close>

datatype go_error =
    ErrSyntax string        \<comment> \<open>\<^verbatim>\<open>strconv.Atoi\<close>: the text is not a decimal integer\<close>
  | ErrRange string         \<comment> \<open>\<^verbatim>\<open>strconv.Atoi\<close>: the value does not fit Go's \<^verbatim>\<open>int\<close>\<close>
  | ErrFieldCount           \<comment> \<open>\<^verbatim>\<open>csv.Reader\<close>: a record with a wrong number of fields\<close>
  | ErrFile string          \<comment> \<open>\<^verbatim>\<open>os.Open\<close> or a malformed CSV text\<close>
  | ErrUnexpectedFormat     \<comment> \<open>\<^verbatim>\<open>fmt.Errorf("unexpected result format")\<close>\<close>
  | ErrRedis string         \<comment> \<open>an error answered by \<^verbatim>\<open>rdb.Do\<close>\<close>

datatype go_panic = IndexOutOfRange | TypeAssertion | DivideByZero

datatype 'a outcome = Ok 'a | Err go_error | Panic go_panic

section \<open>Decimal text: \<^verbatim>\<open>%d\<close>, \<^verbatim>\<open>strconv.Atoi\<close>, \<^verbatim>\<open>strings.Split\<close>\<close>

text \<open>Go's \<^verbatim>\<open>int\<close> is taken to be 64 bits wide, as on every 64-bit platform.\<close>

definition digit_char :: "int \<Rightarrow> char" where
  "digit_char d = char_of (48 + d)"

definition is_digit :: "char \<Rightarrow> bool" where
  "is_digit c = (48 \<le> (of_char c :: int) \<and> (of_char c :: int) \<le> 57)"

definition digit_val :: "char \<Rightarrow> int" where
  "digit_val c = of_char c - 48"

text \<open>The decimal digits of a non-negative number, most significant first, no leading zero.\<close>

function show_nat :: "int \<Rightarrow> string" where
  "show_nat n = (if n < 10 then [digit_char n] else show_nat (n div 10) @ [digit_char (n mod 10)])"
  by pat_completeness auto
termination
  by (relation "measure nat") auto

declare show_nat.simps [simp del]

text \<open>\<^verbatim>\<open>fmt.Sprintf("%d", i)\<close> for a Go \<^verbatim>\<open>int\<close>.\<close>

definition show_int :: "int \<Rightarrow> string" where
  "show_int i = (if i < 0 then CHR ''-'' # show_nat (- i) else show_nat i)"

text \<open>The value of a digit string read left to right, as the loop of \<^verbatim>\<open>strconv.Atoi\<close> does.\<close>

definition digits_val :: "string \<Rightarrow> int" where
  "digits_val s = foldl (\<lambda>n c. 10 * n + digit_val c) 0 s"

text \<open>
  \<^verbatim>\<open>strconv.Atoi\<close>: an optional sign, then one or more decimal digits and nothing else
  (\<^verbatim>\<open>ErrSyntax\<close> otherwise); the value must fit the 64-bit \<^verbatim>\<open>int\<close> (\<^verbatim>\<open>ErrRange\<close> otherwise).
\<close>

definition strip_sign :: "string \<Rightarrow> string" where
  "strip_sign s = (case s of [] \<Rightarrow> [] | c # r \<Rightarrow> if c = CHR ''-'' then r else if c = CHR ''+'' then r else s)"

definition is_negative :: "string \<Rightarrow> bool" where
  "is_negative s = (case s of [] \<Rightarrow> False | c # r \<Rightarrow> c = CHR ''-'')"

definition Atoi :: "string \<Rightarrow> go_error + int" where
  "Atoi s =
     (let body = strip_sign s in
      if body \<noteq> [] \<and> list_all is_digit body then
        (let n = digits_val body; v = (if is_negative s then - n else n) in
         if - (2 ^ 63) \<le> v \<and> v < 2 ^ 63 then Inr v else Inl (ErrRange s))
      else Inl (ErrSyntax s))"

text \<open>
  \<^verbatim>\<open>strings.Split(s, sep)\<close> for a separator of one character (the program only splits on
  \<^verbatim>\<open>":"\<close>): the pieces between the separators, in order; always at least one piece.
\<close>

fun Split :: "string \<Rightarrow> char \<Rightarrow> string list" where
  "Split [] sep = [[]]"
| "Split (c # cs) sep =
     (if c = sep then [] # Split cs sep
      else (case Split cs sep of [] \<Rightarrow> [[c]] | p # ps \<Rightarrow> (c # p) # ps))"

text \<open>\<^verbatim>\<open>strings.Join(xs, sep)\<close>.\<close>

fun Join :: "string list \<Rightarrow> string \<Rightarrow> string" where
  "Join [] sep = []"
| "Join [x] sep = x"
| "Join (x # y # ys) sep = x @ sep @ Join (y # ys) sep"

text \<open>The Redis key of row \<open>i\<close> with label \<open>result\<close>: \<^verbatim>\<open>fmt.Sprintf("number:%d:%d", i, result)\<close>.\<close>

definition key_of :: "int \<Rightarrow> int \<Rightarrow> string" where
  "key_of i result = ''number:'' @ show_int i @ '':'' @ show_int result"

section \<open>Single-precision floats\<close>

text \<open>
  A \<^verbatim>\<open>float32\<close> is modelled by the rational number it denotes. The program only makes
  floats from a 64-bit integer and from the quotient of such a float by \<^verbatim>\<open>255.0\<close>; they
  are zero or of magnitude between \<open>1/255\<close> and \<open>2^63\<close>, all in the normal range of
  IEEE-754 binary32, so neither infinities, NaN nor subnormal numbers arise. An operation
  rounds its exact result to the nearest number with a 24-bit significand, ties to the
  even significand.
\<close>

type_synonym float32 = rat

definition pow2 :: "int \<Rightarrow> rat" where
  "pow2 e = (if 0 \<le> e then 2 ^ nat e else 1 / 2 ^ nat (- e))"

text \<open>Rounding to the nearest integer, ties to even.\<close>

definition round_even :: "rat \<Rightarrow> int" where
  "round_even x =
     (let f = \<lfloor>x\<rfloor>; d = x - of_int f in
      if d < 1 / 2 then f else if 1 / 2 < d then f + 1 else if even f then f else f + 1)"

text \<open>For \<open>0 < x\<close>, the exponent \<open>e\<close> with \<open>2^e \<le> x < 2^(e+1)\<close>.\<close>

definition exponent2 :: "rat \<Rightarrow> int" where
  "exponent2 x = (if 1 \<le> x then bitlen \<lfloor>x\<rfloor> - 1 else - bitlen (\<lceil>1 / x\<rceil> - 1))"

definition f32_round :: "rat \<Rightarrow> float32" where
  "f32_round x =
     (if x = 0 then 0
      else (let a = \<bar>x\<bar>; ulp = pow2 (exponent2 a - 23) in
            sgn x * of_int (round_even (a / ulp)) * ulp))"

text \<open>The conversion \<^verbatim>\<open>float32(n)\<close> of an integer and the division of two floats.\<close>

definition f32_of_int :: "int \<Rightarrow> float32" where
  "f32_of_int n = f32_round (of_int n)"

definition f32_div :: "float32 \<Rightarrow> float32 \<Rightarrow> float32" where
  "f32_div a b = f32_round (a / b)"

text \<open>
  \<^verbatim>\<open>math.Float32bits\<close>: sign bit, exponent biased by 127, the 23 low bits of the
  significand; and the four bytes of that word (numbers from 0 to 255), least significant
  first, which is what
  \<^verbatim>\<open>binary.Write(buf, binary.LittleEndian, v)\<close> appends for a \<^verbatim>\<open>float32\<close>.
\<close>

type_synonym byte = int

definition Float32bits :: "float32 \<Rightarrow> int" where
  "Float32bits x =
     (if x = 0 then 0
      else (let a = \<bar>x\<bar>; e = exponent2 a; m = \<lfloor>a / pow2 (e - 23)\<rfloor> in
            (if x < 0 then 2 ^ 31 else 0) + (e + 127) * 2 ^ 23 + (m - 2 ^ 23)))"

definition le_bytes32 :: "int \<Rightarrow> byte list" where
  "le_bytes32 w = [w mod 256, w div 256 mod 256, w div 65536 mod 256, w div 16777216 mod 256]"

text \<open>
  \<^verbatim>\<open>convertFloat32ArrayToBlob\<close>: writing to a \<^verbatim>\<open>bytes.Buffer\<close> does not fail, so the error
  branch of the source is never taken; the result type keeps it.
\<close>

fun convertFloat32ArrayToBlob :: "float32 list \<Rightarrow> go_error + byte list" where
  "convertFloat32ArrayToBlob [] = Inr []"
| "convertFloat32ArrayToBlob (v # vector) =
     (case convertFloat32ArrayToBlob vector of
        Inl err \<Rightarrow> Inl err
      | Inr rest \<Rightarrow> Inr (le_bytes32 (Float32bits v) @ rest))"

text \<open>
  \<^verbatim>\<open>fmt.Sprintf("%.6f", f)\<close>: the exact value of the float rounded to six decimals (ties
  to even), written as sign, integer part, point and exactly six digits.
\<close>

definition pad6 :: "int \<Rightarrow> string" where
  "pad6 k = map (\<lambda>p. digit_char (k div p mod 10)) [100000, 10000, 1000, 100, 10, 1]"

definition Sprintf_6f :: "float32 \<Rightarrow> string" where
  "Sprintf_6f f =
     (let k = round_even (\<bar>f\<bar> * 1000000) in
      (if f < 0 then ''-'' else []) @ show_nat (k div 1000000) @ ''.'' @ pad6 (k mod 1000000))"

text \<open>
  The number a decimal text denotes: an optional sign and digits, optionally followed by a
  point and digits; \<open>None\<close> for any other text. This is how a stored JSON number is read.
\<close>

definition digits_rat :: "string \<Rightarrow> rat option" where
  "digits_rat s = (if s \<noteq> [] \<and> list_all is_digit s then Some (of_int (digits_val s)) else None)"

definition decimal_value :: "string \<Rightarrow> rat option" where
  "decimal_value s =
     (let body = strip_sign s; sg = (if is_negative s then - 1 else 1) in
      case Split body (CHR ''.'') of
        [ip] \<Rightarrow> map_option (\<lambda>n. sg * n) (digits_rat ip)
      | [ip, fp] \<Rightarrow>
          (case (digits_rat ip, digits_rat fp) of
             (Some n, Some m) \<Rightarrow> Some (sg * (n + m / 10 ^ length fp))
           | _ \<Rightarrow> None)
      | _ \<Rightarrow> None)"

section \<open>Normalisation of a pixel\<close>

text \<open>
  Query time (\<^verbatim>\<open>SearchData\<close>, line 137): \<^verbatim>\<open>pixelFloat := float32(pixelInt) / 255.0\<close>.
\<close>

definition normalize_query :: "int \<Rightarrow> float32" where
  "normalize_query pixelInt = f32_div (f32_of_int pixelInt) 255"

text \<open>
  Ingestion (\<^verbatim>\<open>StoreData\<close>, lines 74 to 79): the text \<^verbatim>\<open>"0"\<close> for a zero pixel, otherwise
  the same quotient printed with six decimals. The text goes into the JSON document.
\<close>

definition normalize_store :: "int \<Rightarrow> string" where
  "normalize_store pixelInt =
     (if pixelInt = 0 then ''0''
      else Sprintf_6f (f32_div (f32_of_int pixelInt) 255))"

section \<open>The Redis client\<close>

text \<open>
  The Redis server is not part of the program. \<^verbatim>\<open>rdb.Do(ctx, args...)\<close> is a function of
  the state \<open>'db\<close> of the outside world and of the command; it answers with an error or a
  reply, with the wall-clock milliseconds the call took (what \<^verbatim>\<open>time.Since(start).Milliseconds()\<close>
  reads around it), and with the new state. A reply is what go-redis hands back as
  \<^verbatim>\<open>interface{}\<close>: an \<^verbatim>\<open>int64\<close>, a \<^verbatim>\<open>string\<close>, a \<^verbatim>\<open>[]interface{}\<close> or \<^verbatim>\<open>nil\<close>.
\<close>

datatype reply = RInt int | RStr string | RArr "reply list" | RNil

datatype arg = AStr string | ABlob "byte list"

type_synonym 'db redis = "'db \<Rightarrow> arg list \<Rightarrow> (go_error + reply) \<times> int \<times> 'db"

text \<open>What the program prints, one value per line of standard output.\<close>

datatype line =
    Stored int int                \<comment> \<open>\<^verbatim>\<open>Stored JSON for number:%d:%d\<close>\<close>
  | AllStored                     \<comment> \<open>\<^verbatim>\<open>All data has been stored in Redis.\<close>\<close>
  | TestImage int int int int     \<comment> \<open>\<^verbatim>\<open>Test image %d: expected = %d, found = %d in %dms\<close>\<close>
  | NumCorrect int                \<comment> \<open>\<^verbatim>\<open>Number of Correct guess = %d\<close>\<close>
  | NumWrong int                  \<comment> \<open>\<^verbatim>\<open>Number of Wrong guess = %d\<close>\<close>
  | Accuracy int                  \<comment> \<open>\<^verbatim>\<open>Accuracy = %d%%\<close>\<close>
  | MinDuration int               \<comment> \<open>\<^verbatim>\<open>Redis Vector Search Min Duration = %dms\<close>\<close>
  | MaxDuration int               \<comment> \<open>\<^verbatim>\<open>Redis Vector Search Max Duration = %dms\<close>\<close>
  | AvgDuration int               \<comment> \<open>\<^verbatim>\<open>Redis Vector Search Average Duration = %dms\<close>\<close>

text \<open>
  The variables of the program: the three package-level durations, the two counters of
  \<^verbatim>\<open>SearchData\<close>, and the lines printed so far.
\<close>

record state =
  minDuration :: int
  maxDuration :: int
  totalDuration :: int
  correctGuess :: int
  wrongGuess :: int
  stdout :: "line list"

text \<open>\<^verbatim>\<open>main\<close> sets the package-level variables before it does anything else (lines 228 to 230).\<close>

definition main_init :: state where
  "main_init = \<lparr>minDuration = 999999, maxDuration = 0, totalDuration = 0,
                 correctGuess = 0, wrongGuess = 0, stdout = []\<rparr>"

definition print :: "line \<Rightarrow> state \<Rightarrow> state" where
  "print l st = st\<lparr>stdout := stdout st @ [l]\<rparr>"

section \<open>\<^verbatim>\<open>CreateIndex\<close>\<close>

text \<open>
  The index is made once, over the field \<^verbatim>\<open>$.embedding\<close> of the documents whose key starts
  with \<^verbatim>\<open>number:\<close>. This command is the only place of the program where the dimension 784
  occurs.
\<close>

definition createIndex :: "arg list" where
  "createIndex = map AStr
     [''FT.CREATE'', ''mnist_index'', ''ON'', ''JSON'', ''PREFIX'', ''1'', ''number:'',
      ''SCHEMA'', ''$.embedding'', ''AS'', ''embedding'', ''VECTOR'', ''FLAT'', ''6'',
      ''DIM'', ''784'', ''DISTANCE_METRIC'', ''L2'', ''TYPE'', ''FLOAT32'']"

definition CreateIndex :: "'db redis \<Rightarrow> 'db \<Rightarrow> go_error option \<times> 'db" where
  "CreateIndex rdb db =
     (case rdb db createIndex of
        (Inl err, _, db') \<Rightarrow> (Some err, db')
      | (Inr _, _, db') \<Rightarrow> (None, db'))"

section \<open>\<^verbatim>\<open>csv.Reader.ReadAll\<close>\<close>

text \<open>
  Opening and reading a CSV file is done by Go's library. \<^verbatim>\<open>StoreData\<close> and \<^verbatim>\<open>SearchData\<close>
  take its result: an error, or the records. A reader made by \<^verbatim>\<open>csv.NewReader\<close> has
  \<^verbatim>\<open>FieldsPerRecord = 0\<close>: the first record fixes the number of fields, and a later record with
  another number makes \<^verbatim>\<open>ReadAll\<close> fail with \<^verbatim>\<open>ErrFieldCount\<close>. \<open>ReadAll\<close> states that rule on
  the rows of the file.
\<close>

definition ReadAll :: "string list list \<Rightarrow> go_error + string list list" where
  "ReadAll rows =
     (case rows of
        [] \<Rightarrow> Inr []
      | r # rs \<Rightarrow> if list_all (\<lambda>x. length x = length r) rs then Inr rows else Inl ErrFieldCount)"

section \<open>\<^verbatim>\<open>StoreData\<close>\<close>

text \<open>The inner loop (lines 67 to 80): the texts of the normalised pixels, or the first error.\<close>

fun pixelStrings :: "string list \<Rightarrow> go_error + string list" where
  "pixelStrings [] = Inr []"
| "pixelStrings (pixel # pixelValues) =
     (case Atoi pixel of
        Inl err \<Rightarrow> Inl err
      | Inr pixelInt \<Rightarrow>
          (case pixelStrings pixelValues of
             Inl err \<Rightarrow> Inl err
           | Inr rest \<Rightarrow> Inr (normalize_store pixelInt # rest)))"

definition jsonData :: "int \<Rightarrow> string \<Rightarrow> string" where
  \<open>jsonData result embedding =
     ''{"result": '' @ show_int result @ '', "embedding": ['' @ embedding @ '']}''\<close>

text \<open>
  One row up to the Redis call (lines 57 to 87): the label, the key and the JSON document.
  \<^verbatim>\<open>record[0]\<close> panics on a record without fields.
\<close>

definition store_row :: "int \<Rightarrow> string list \<Rightarrow> (int \<times> string \<times> string) outcome" where
  "store_row i record =
     (case record of
        [] \<Rightarrow> Panic IndexOutOfRange
      | label # pixelValues \<Rightarrow>
          (case Atoi label of
             Inl err \<Rightarrow> Err err
           | Inr result \<Rightarrow>
               (case pixelStrings pixelValues of
                  Inl err \<Rightarrow> Err err
                | Inr ps \<Rightarrow> Ok (result, key_of i result, jsonData result (Join ps '','')))))"

definition json_set :: "string \<Rightarrow> string \<Rightarrow> arg list" where
  "json_set key doc = [AStr ''JSON.SET'', AStr key, AStr ''$'', AStr doc]"

fun store_loop :: "'db redis \<Rightarrow> int \<Rightarrow> string list list \<Rightarrow> state \<Rightarrow> 'db \<Rightarrow> unit outcome \<times> state \<times> 'db" where
  "store_loop rdb i [] st db = (Ok (), st, db)"
| "store_loop rdb i (record # records) st db =
     (case store_row i record of
        Panic p \<Rightarrow> (Panic p, st, db)
      | Err err \<Rightarrow> (Err err, st, db)
      | Ok (result, key, doc) \<Rightarrow>
          (case rdb db (json_set key doc) of
             (Inl err, _, db') \<Rightarrow> (Err err, st, db')
           | (Inr _, _, db') \<Rightarrow> store_loop rdb (i + 1) records (print (Stored i result) st) db'))"

definition StoreData :: "'db redis \<Rightarrow> go_error + string list list \<Rightarrow> state \<Rightarrow> 'db \<Rightarrow> unit outcome \<times> state \<times> 'db" where
  "StoreData rdb file st db =
     (case file of
        Inl err \<Rightarrow> (Err err, st, db)
      | Inr records \<Rightarrow>
          (case store_loop rdb 0 records st db of
             (Ok _, st', db') \<Rightarrow> (Ok (), print AllStored st', db')
           | (Err err, st', db') \<Rightarrow> (Err err, st', db')
           | (Panic p, st', db') \<Rightarrow> (Panic p, st', db')))"

section \<open>\<^verbatim>\<open>searchVectorInRedis\<close>\<close>

definition searchQuery :: "byte list \<Rightarrow> arg list" where
  "searchQuery embeddingBytes =
     [AStr ''FT.SEARCH'', AStr ''mnist_index'', AStr ''*=>[KNN 1 @embedding $blob AS dist]'',
      AStr ''SORTBY'', AStr ''dist'', AStr ''PARAMS'', AStr ''2'', AStr ''blob'',
      ABlob embeddingBytes, AStr ''DIALECT'', AStr ''2'']"

text \<open>
  Lines 208 to 224, on the reply of a successful call: \<^verbatim>\<open>items[1]\<close> panics when the array has
  one element, \<^verbatim>\<open>.(string)\<close> panics when the element is not a string.
\<close>

definition label_of_reply :: "reply \<Rightarrow> int outcome" where
  "label_of_reply result =
     (case result of
        RArr items \<Rightarrow>
          if length items = 0 then Err ErrUnexpectedFormat
          else if length items < 2 then Panic IndexOutOfRange
          else (case items ! 1 of
                  RStr s \<Rightarrow>
                    (let parts = Split s (CHR '':'') in
                     if parts = [] then Panic IndexOutOfRange
                     else (case Atoi (last parts) of
                             Inl err \<Rightarrow> Err err
                           | Inr parsedInt \<Rightarrow> Ok parsedInt))
                | _ \<Rightarrow> Panic TypeAssertion)
      | _ \<Rightarrow> Err ErrUnexpectedFormat)"

definition searchVectorInRedis :: "'db redis \<Rightarrow> 'db \<Rightarrow> float32 list \<Rightarrow> (int \<times> int) outcome \<times> 'db" where
  "searchVectorInRedis rdb db embedding =
     (case convertFloat32ArrayToBlob embedding of
        Inl err \<Rightarrow> (Err err, db)
      | Inr embeddingBytes \<Rightarrow>
          (case rdb db (searchQuery embeddingBytes) of
             (Inl err, duration, db') \<Rightarrow> (Err err, db')
           | (Inr result, duration, db') \<Rightarrow>
               (case label_of_reply result of
                  Ok parsedInt \<Rightarrow> (Ok (parsedInt, duration), db')
                | Err err \<Rightarrow> (Err err, db')
                | Panic p \<Rightarrow> (Panic p, db'))))"

section \<open>\<^verbatim>\<open>SearchData\<close>\<close>

text \<open>
  Arithmetic on \<^verbatim>\<open>int\<close> and \<^verbatim>\<open>int64\<close> wraps around at 64 bits; the quotient of two integers
  is truncated towards zero and a zero divisor panics.
\<close>

definition wrap64 :: "int \<Rightarrow> int" where
  "wrap64 x = (x + 2 ^ 63) mod 2 ^ 64 - 2 ^ 63"

definition trunc_div :: "int \<Rightarrow> int \<Rightarrow> int" where
  "trunc_div x y = (if (x < 0) = (y < 0) then \<bar>x\<bar> div \<bar>y\<bar> else - (\<bar>x\<bar> div \<bar>y\<bar>))"

definition go_div :: "int \<Rightarrow> int \<Rightarrow> int outcome" where
  "go_div a b = (if b = 0 then Panic DivideByZero else Ok (wrap64 (trunc_div a b)))"

text \<open>The inner loop (lines 130 to 139): the normalised pixels, or the first error.\<close>

fun embedding_of :: "string list \<Rightarrow> go_error + float32 list" where
  "embedding_of [] = Inr []"
| "embedding_of (pixel # pixelValues) =
     (case Atoi pixel of
        Inl err \<Rightarrow> Inl err
      | Inr pixelInt \<Rightarrow>
          (case embedding_of pixelValues of
             Inl err \<Rightarrow> Inl err
           | Inr rest \<Rightarrow> Inr (normalize_query pixelInt # rest)))"

text \<open>Lines 146 to 159: the bookkeeping after a search that returned.\<close>

definition tally :: "int \<Rightarrow> int \<Rightarrow> int \<Rightarrow> int \<Rightarrow> state \<Rightarrow> state" where
  "tally i expectedResult foundLabel duration st =
     (let st1 = (if duration < minDuration st then st\<lparr>minDuration := duration\<rparr> else st);
          st2 = (if maxDuration st1 < duration then st1\<lparr>maxDuration := duration\<rparr> else st1);
          st3 = st2\<lparr>totalDuration := wrap64 (totalDuration st2 + duration)\<rparr>;
          st4 = print (TestImage i expectedResult foundLabel duration) st3
      in if expectedResult = foundLabel
         then st4\<lparr>correctGuess := wrap64 (correctGuess st4 + 1)\<rparr>
         else st4\<lparr>wrongGuess := wrap64 (wrongGuess st4 + 1)\<rparr>)"

fun search_loop :: "'db redis \<Rightarrow> int \<Rightarrow> string list list \<Rightarrow> state \<Rightarrow> 'db \<Rightarrow> unit outcome \<times> state \<times> 'db" where
  "search_loop rdb i [] st db = (Ok (), st, db)"
| "search_loop rdb i (record # records) st db =
     (case record of
        [] \<Rightarrow> (Panic IndexOutOfRange, st, db)
      | label # pixelValues \<Rightarrow>
          (case Atoi label of
             Inl err \<Rightarrow> (Err err, st, db)
           | Inr expectedResult \<Rightarrow>
               (case embedding_of pixelValues of
                  Inl err \<Rightarrow> (Err err, st, db)
                | Inr embedding \<Rightarrow>
                    (case searchVectorInRedis rdb db embedding of
                       (Err err, db') \<Rightarrow> (Err err, st, db')
                     | (Panic p, db') \<Rightarrow> (Panic p, st, db')
                     | (Ok (foundLabel, duration), db') \<Rightarrow>
                         search_loop rdb (i + 1) records
                           (tally i expectedResult foundLabel duration st) db'))))"

text \<open>
  Lines 161 to 166. The arguments of a \<^verbatim>\<open>Printf\<close> are evaluated before it prints, so a
  panicking division prints nothing of its line, and the lines after it are not reached.
\<close>

definition summary :: "int \<Rightarrow> state \<Rightarrow> unit outcome \<times> state" where
  "summary n st =
     (let st1 = print (NumWrong (wrongGuess st)) (print (NumCorrect (correctGuess st)) st) in
      case go_div (wrap64 (100 * correctGuess st)) (wrap64 (wrongGuess st + correctGuess st)) of
        Panic p \<Rightarrow> (Panic p, st1)
      | Err err \<Rightarrow> (Err err, st1)
      | Ok acc \<Rightarrow>
          (let st2 = print (MaxDuration (maxDuration st))
                       (print (MinDuration (minDuration st)) (print (Accuracy acc) st1)) in
           case go_div (totalDuration st) n of
             Panic p \<Rightarrow> (Panic p, st2)
           | Err err \<Rightarrow> (Err err, st2)
           | Ok avg \<Rightarrow> (Ok (), print (AvgDuration avg) st2)))"

definition SearchData :: "'db redis \<Rightarrow> go_error + string list list \<Rightarrow> state \<Rightarrow> 'db \<Rightarrow> unit outcome \<times> state \<times> 'db" where
  "SearchData rdb file st db =
     (case file of
        Inl err \<Rightarrow> (Err err, st, db)
      | Inr records \<Rightarrow>
          (case search_loop rdb 0 records (st\<lparr>correctGuess := 0, wrongGuess := 0\<rparr>) db of
             (Ok _, st', db') \<Rightarrow>
               (case summary (int (length records)) st' of (r, st'') \<Rightarrow> (r, st'', db'))
           | (Err err, st', db') \<Rightarrow> (Err err, st', db')
           | (Panic p, st', db') \<Rightarrow> (Panic p, st', db')))"

section \<open>Two stand-ins for the server\<close>

text \<open>
  A keyspace: \<^verbatim>\<open>JSON.SET key $ doc\<close> puts the document under the key, replacing the document
  that was there, and answers \<^verbatim>\<open>OK\<close>; it does not look into the document. Every other command
  is refused.
\<close>

fun kv_set :: "string \<Rightarrow> string \<Rightarrow> (string \<times> string) list \<Rightarrow> (string \<times> string) list" where
  "kv_set k v [] = [(k, v)]"
| "kv_set k v ((k', v') # kvs) = (if k = k' then (k, v) # kvs else (k', v') # kv_set k v kvs)"

fun keyspace :: "(string \<times> string) list redis" where
  "keyspace db [AStr c, AStr key, AStr path, AStr doc] =
     (if c = ''JSON.SET'' then (Inr (RStr ''OK''), 0, kv_set key doc db)
      else (Inl (ErrRedis ''ERR unknown command''), 0, db))"
| "keyspace db args = (Inl (ErrRedis ''ERR unknown command''), 0, db)"

text \<open>A script: the answers and durations of the calls to come, given in advance.\<close>

fun script :: "((go_error + reply) \<times> int) list redis" where
  "script [] args = (Inl (ErrRedis ''EOF''), 0, [])"
| "script ((r, d) # rest) args = (r, d, rest)"

text \<open>
  A server in front of another that holds the index the program creates (784 floats of four
  bytes): a command that carries a blob of another size than 3136 bytes is refused, with an
  error and without a change of state; every other command goes through.
\<close>

fun blob_arg :: "arg list \<Rightarrow> byte list option" where
  "blob_arg [] = None"
| "blob_arg (ABlob b # args) = Some b"
| "blob_arg (AStr s # args) = blob_arg args"

definition blob_size_error :: go_error where
  "blob_size_error = ErrRedis ''query vector blob size does not match index expected size (3136)''"

definition dim784 :: "'db redis \<Rightarrow> 'db redis" where
  "dim784 rdb db args =
     (case blob_arg args of
        None \<Rightarrow> rdb db args
      | Some b \<Rightarrow> if length b = 3136 then rdb db args else (Inl blob_size_error, 0, db))"

text \<open>
  The reply of \<^verbatim>\<open>FT.SEARCH\<close> with \<^verbatim>\<open>KNN 1\<close>: the number of results, then for each result its
  key and its fields. With no result the array holds the number 0 and nothing else.
\<close>

definition found :: "string \<Rightarrow> reply" where
  "found key = RArr [RInt 1, RStr key, RArr [RStr ''dist'', RStr ''0'']]"

definition nothing_found :: reply where
  "nothing_found = RArr [RInt 0]"

section \<open>Vocabulary of the statements\<close>

text \<open>The lines of the final summary, as opposed to the line printed for each row.\<close>

fun is_summary_line :: "line \<Rightarrow> bool" where
  "is_summary_line (NumCorrect c) = True"
| "is_summary_line (NumWrong w) = True"
| "is_summary_line (Accuracy a) = True"
| "is_summary_line (MinDuration d) = True"
| "is_summary_line (MaxDuration d) = True"
| "is_summary_line (AvgDuration d) = True"
| "is_summary_line l = False"

text \<open>A field that \<^verbatim>\<open>strconv.Atoi\<close> accepts.\<close>

definition numeric :: "string \<Rightarrow> bool" where
  "numeric s = (case Atoi s of Inl err \<Rightarrow> False | Inr v \<Rightarrow> True)"

section \<open>Facts about decimal text\<close>

lemma digit_val_digit_char: "0 \<le> d \<Longrightarrow> d < 10 \<Longrightarrow> digit_val (digit_char d) = d"
  by (simp add: digit_val_def digit_char_def)

lemma is_digit_digit_char: "0 \<le> d \<Longrightarrow> d < 10 \<Longrightarrow> is_digit (digit_char d)"
  by (simp add: is_digit_def digit_char_def)

lemma is_digit_not_colon: "is_digit c \<Longrightarrow> c \<noteq> CHR '':''"
  by (auto simp: is_digit_def)

lemma is_digit_not_sign: "is_digit c \<Longrightarrow> c \<noteq> CHR ''-'' \<and> c \<noteq> CHR ''+'' \<and> c \<noteq> CHR ''.''"
  by (auto simp: is_digit_def)

lemma show_nat_digits: "0 \<le> n \<Longrightarrow> list_all is_digit (show_nat n)"
proof (induction n rule: show_nat.induct)
  case (1 n)
  show ?case
  proof (cases "n < 10")
    case True
    with 1 show ?thesis by (subst show_nat.simps) (simp add: is_digit_digit_char)
  next
    case False
    with 1 have "list_all is_digit (show_nat (n div 10))" by simp
    moreover have "is_digit (digit_char (n mod 10))" by (simp add: is_digit_digit_char)
    ultimately show ?thesis using False by (subst show_nat.simps) simp
  qed
qed

lemma show_nat_nonempty: "show_nat n \<noteq> []"
  by (subst show_nat.simps) simp

lemma digits_val_snoc: "digits_val (s @ [c]) = 10 * digits_val s + digit_val c"
  by (simp add: digits_val_def)

lemma digits_val_show_nat: "0 \<le> n \<Longrightarrow> digits_val (show_nat n) = n"
proof (induction n rule: show_nat.induct)
  case (1 n)
  show ?case
  proof (cases "n < 10")
    case True
    with 1 show ?thesis
      by (subst show_nat.simps) (simp add: digits_val_def digit_val_digit_char)
  next
    case False
    with 1 have "digits_val (show_nat (n div 10)) = n div 10" by simp
    then show ?thesis using False
      by (subst show_nat.simps) (simp add: digits_val_snoc digit_val_digit_char)
  qed
qed


lemma Split_no_sep: "sep \<notin> set s \<Longrightarrow> Split s sep = [s]"
  by (induction s) auto

lemma Split_nonempty: "Split s sep \<noteq> []"
  by (induction s) (auto split: list.splits)

lemma Split_append: "Split (a @ sep # b) sep = Split a sep @ Split b sep"
  by (induction a) (auto simp: Split_nonempty split: list.splits)


lemma colon_notin_show_nat: "0 \<le> n \<Longrightarrow> CHR '':'' \<notin> set (show_nat n)"
  using show_nat_digits [of n] is_digit_not_colon by (auto simp: list_all_iff)


section \<open>The label comes back from the key\<close>



section \<open>Facts about the search loop\<close>

lemma convertFloat32ArrayToBlob_eq:
  "convertFloat32ArrayToBlob v = Inr (concat (map (\<lambda>x. le_bytes32 (Float32bits x)) v))"
  by (induction v) simp_all

lemma length_blob:
  "length (concat (map (\<lambda>x. le_bytes32 (Float32bits x)) v)) = 4 * length v"
  by (induction v) (simp_all add: le_bytes32_def)

lemma wrap64_id: "- (2 ^ 63) \<le> x \<Longrightarrow> x < 2 ^ 63 \<Longrightarrow> wrap64 x = x"
  by (simp add: wrap64_def)

lemma trunc_div_nonneg: "0 \<le> a \<Longrightarrow> 0 < b \<Longrightarrow> trunc_div a b = a div b"
  by (cases "a = 0") (simp_all add: trunc_div_def)

lemma tally_summary_lines:
  "filter is_summary_line (stdout (tally i e f d st)) = filter is_summary_line (stdout st)"
  by (simp add: tally_def Let_def print_def)

lemma tally_counters:
  assumes "0 \<le> correctGuess st" "0 \<le> wrongGuess st"
    and "correctGuess st + wrongGuess st + 1 < 2 ^ 63"
  shows "0 \<le> correctGuess (tally i e f d st) \<and> 0 \<le> wrongGuess (tally i e f d st)
       \<and> correctGuess (tally i e f d st) + wrongGuess (tally i e f d st)
           = correctGuess st + wrongGuess st + 1"
  using assms by (simp add: tally_def Let_def print_def wrap64_id)

lemma search_loop_invariant:
  "search_loop rdb i records st db = (Ok u, st', db') \<Longrightarrow>
   0 \<le> correctGuess st \<Longrightarrow> 0 \<le> wrongGuess st \<Longrightarrow>
   correctGuess st + wrongGuess st + int (length records) < 2 ^ 63 \<Longrightarrow>
   0 \<le> correctGuess st' \<and> 0 \<le> wrongGuess st'
   \<and> correctGuess st' + wrongGuess st' = correctGuess st + wrongGuess st + int (length records)"
proof (induction records arbitrary: i st db)
  case Nil
  then show ?case by simp
next
  case (Cons row rows)
  from Cons.prems(1) obtain label pixelValues expectedResult embedding foundLabel duration db1
    where row: "row = label # pixelValues" "Atoi label = Inr expectedResult"
      "embedding_of pixelValues = Inr embedding"
      "searchVectorInRedis rdb db embedding = (Ok (foundLabel, duration), db1)"
    and rest: "search_loop rdb (i + 1) rows (tally i expectedResult foundLabel duration st) db1
                 = (Ok u, st', db')"
    by (auto split: list.splits sum.splits outcome.splits prod.splits)
  let ?st1 = "tally i expectedResult foundLabel duration st"
  have t: "0 \<le> correctGuess ?st1 \<and> 0 \<le> wrongGuess ?st1
       \<and> correctGuess ?st1 + wrongGuess ?st1 = correctGuess st + wrongGuess st + 1"
    using Cons.prems by (intro tally_counters) auto
  have "0 \<le> correctGuess st' \<and> 0 \<le> wrongGuess st'
     \<and> correctGuess st' + wrongGuess st' = correctGuess ?st1 + wrongGuess ?st1 + int (length rows)"
    using Cons.IH [OF rest] t Cons.prems by auto
  then show ?case using t by auto
qed

lemma search_loop_summary_lines:
  "search_loop rdb i records st db = (r, st', db') \<Longrightarrow>
   filter is_summary_line (stdout st') = filter is_summary_line (stdout st)"
proof (induction records arbitrary: i st db)
  case Nil
  then show ?case by simp
next
  case (Cons row rows)
  then show ?case
    by (auto split: list.splits sum.splits outcome.splits prod.splits
        simp: tally_summary_lines)
qed

lemma search_loop_append:
  "search_loop rdb i (xs @ ys) st db =
     (case search_loop rdb i xs st db of
        (Ok u, st1, db1) \<Rightarrow> search_loop rdb (i + int (length xs)) ys st1 db1
      | (Err err, st1, db1) \<Rightarrow> (Err err, st1, db1)
      | (Panic p, st1, db1) \<Rightarrow> (Panic p, st1, db1))"
proof (induction xs arbitrary: i st db)
  case Nil
  then show ?case by simp
next
  case (Cons x xs)
  have "i + 1 + int (length xs) = i + int (length (x # xs))" by simp
  then show ?case
    by (simp add: Cons.IH add.assoc split: list.splits sum.splits outcome.splits prod.splits)
qed

lemma print_fields [simp]:
  "correctGuess (print l st) = correctGuess st" "wrongGuess (print l st) = wrongGuess st"
  "minDuration (print l st) = minDuration st" "maxDuration (print l st) = maxDuration st"
  "totalDuration (print l st) = totalDuration st" "stdout (print l st) = stdout st @ [l]"
  by (simp_all add: print_def)

lemma summary_Ok:
  assumes "summary n st = (Ok u, st')"
    and "0 \<le> correctGuess st" "0 \<le> wrongGuess st"
    and "correctGuess st + wrongGuess st \<le> 92233720368547758"
  shows "correctGuess st' = correctGuess st \<and> wrongGuess st' = wrongGuess st
       \<and> stdout st' = stdout st @
           [NumCorrect (correctGuess st), NumWrong (wrongGuess st),
            Accuracy (trunc_div (100 * correctGuess st) (correctGuess st + wrongGuess st)),
            MinDuration (minDuration st), MaxDuration (maxDuration st),
            AvgDuration (wrap64 (trunc_div (totalDuration st) n))]"
proof -
  let ?c = "correctGuess st" and ?w = "wrongGuess st"
  have w1: "wrap64 (100 * ?c) = 100 * ?c" using assms by (intro wrap64_id) auto
  have w2: "wrap64 (?w + ?c) = ?c + ?w" using assms by (simp add: wrap64_id)
  have nz: "?c + ?w \<noteq> 0" "n \<noteq> 0"
    using assms(1) by (auto simp: summary_def Let_def go_div_def w1 w2 split: if_splits)
  have pos: "0 < ?c + ?w" using assms nz by linarith
  have "0 \<le> trunc_div (100 * ?c) (?c + ?w)" "trunc_div (100 * ?c) (?c + ?w) \<le> 100 * ?c"
    using assms pos zdiv_mono2 [of "100 * ?c" 1 "?c + ?w"]
    by (simp_all add: trunc_div_nonneg pos_imp_zdiv_nonneg_iff)
  then have w3: "wrap64 (trunc_div (100 * ?c) (?c + ?w)) = trunc_div (100 * ?c) (?c + ?w)"
    using assms by (intro wrap64_id) auto
  show ?thesis
    using assms(1) nz by (auto simp: summary_def Let_def go_div_def w1 w2 w3)
qed

section \<open>Searching an empty store\<close>

text \<open>
  C2. \<^verbatim>\<open>FT.SEARCH\<close> on an index without documents answers with an array that holds only the
  number of results, 0. The claim is that the search then returns an error. The guard of
  line 209 only catches an array of length 0: on the array of length 1 the function goes on
  to \<^verbatim>\<open>items[1]\<close> and panics with an index out of range instead of returning an error.
\<close>

theorem search_empty_store_panics:
  "label_of_reply nothing_found = Panic IndexOutOfRange
   \<and> searchVectorInRedis script ((Inr nothing_found, d) # later) embedding
       = (Panic IndexOutOfRange, later)
   \<and> label_of_reply (RArr []) = Err ErrUnexpectedFormat"
  by (simp add: searchVectorInRedis_def convertFloat32ArrayToBlob_eq label_of_reply_def
      nothing_found_def)

section \<open>Division by zero on an empty test set\<close>

text \<open>
  C9, as claimed: with no test row the run reaches a division by zero both at the accuracy
  and at the average duration. Not so: the run panics at the accuracy, the first of the two
  divisions, having printed the two counters only; the lines of the minimum and of the
  maximum, which come before the average, are never printed, and the average is never
  computed.
\<close>

theorem average_division_not_reached_counterexample:
  "SearchData script (Inr []) main_init []
     = (Panic DivideByZero, main_init\<lparr>stdout := [NumCorrect 0, NumWrong 0]\<rparr>, [])
   \<and> MinDuration 999999 \<notin> set (stdout (fst (snd (SearchData script (Inr []) main_init []))))
   \<and> MaxDuration 0 \<notin> set (stdout (fst (snd (SearchData script (Inr []) main_init []))))"
  by code_simp

text \<open>
  C9, amended. With no test row \<^verbatim>\<open>SearchData\<close> panics with a division by zero at the accuracy
  \<^verbatim>\<open>100*correctGuess/(wrongGuess+correctGuess)\<close>, after printing the two counters; the average
  duration is not reached. Neither division is guarded: the summary panics at the accuracy
  whenever the two counters add up to 0, and, when they do not, it panics at the average
  \<^verbatim>\<open>totalDuration/int64(len(records))\<close> whenever the number of rows is 0.
\<close>

theorem empty_test_set_panics_at_accuracy:
  "SearchData rdb (Inr []) st db
     = (Panic DivideByZero,
        print (NumWrong 0) (print (NumCorrect 0) (st\<lparr>correctGuess := 0, wrongGuess := 0\<rparr>)), db)
   \<and> (wrap64 (wrongGuess sta + correctGuess sta) = 0 \<longrightarrow>
        summary n sta
          = (Panic DivideByZero,
             print (NumWrong (wrongGuess sta)) (print (NumCorrect (correctGuess sta)) sta)))
   \<and> (wrap64 (wrongGuess stb + correctGuess stb) \<noteq> 0 \<longrightarrow>
        summary 0 stb
          = (Panic DivideByZero,
             print (MaxDuration (maxDuration stb)) (print (MinDuration (minDuration stb))
               (print (Accuracy (wrap64 (trunc_div (wrap64 (100 * correctGuess stb))
                                           (wrap64 (wrongGuess stb + correctGuess stb)))))
                 (print (NumWrong (wrongGuess stb)) (print (NumCorrect (correctGuess stb)) stb))))))"
  by (simp add: SearchData_def summary_def go_div_def Let_def wrap64_def print_def)

theorem empty_test_set_panics_at_accuracy_witness:
  "SearchData script (Inr []) main_init []
     = (Panic DivideByZero, main_init\<lparr>stdout := [NumCorrect 0, NumWrong 0]\<rparr>, [])
   \<and> wrap64 (wrongGuess main_init + correctGuess main_init) = 0
   \<and> summary 0 main_init = (Panic DivideByZero, main_init\<lparr>stdout := [NumCorrect 0, NumWrong 0]\<rparr>)
   \<and> wrap64 (wrongGuess (main_init\<lparr>correctGuess := 1\<rparr>) + correctGuess (main_init\<lparr>correctGuess := 1\<rparr>)) \<noteq> 0
   \<and> summary 0 (main_init\<lparr>correctGuess := 1\<rparr>)
        = (Panic DivideByZero,
           main_init\<lparr>correctGuess := 1,
             stdout := [NumCorrect 1, NumWrong 0, Accuracy 100, MinDuration 999999, MaxDuration 0]\<rparr>)"
proof -
  have h1: "wrap64 (wrongGuess main_init + correctGuess main_init) = 0" by code_simp
  have h2: "wrap64 (wrongGuess (main_init\<lparr>correctGuess := 1\<rparr>)
              + correctGuess (main_init\<lparr>correctGuess := 1\<rparr>)) \<noteq> 0"
    by code_simp
  have e: "wrap64 (trunc_div (wrap64 (100 * 1)) (wrap64 (0 + 1))) = 100" by code_simp
  show ?thesis
    using empty_test_set_panics_at_accuracy
      [where rdb = script and st = main_init and db = "[]" and sta = main_init and n = 0
         and stb = "main_init\<lparr>correctGuess := 1\<rparr>"]
      h1 h2 e
    by (simp add: main_init_def print_def)
qed

section \<open>Minimum, maximum and average duration\<close>

text \<open>
  C6. The claim is that the reported minimum is the least search latency. \<^verbatim>\<open>main\<close> starts
  \<^verbatim>\<open>minDuration\<close> at 999999, so a run whose searches all take longer reports 999999: one
  query that takes 1000000 ms is reported with minimum 999999, maximum 1000000 and
  average 1000000.
\<close>

theorem min_duration_stuck_at_sentinel:
  "SearchData script (Inr [[''5'', ''0'']]) main_init [(Inr (found ''number:0:5''), 1000000)]
     = (Ok (),
        \<lparr>minDuration = 999999, maxDuration = 1000000, totalDuration = 1000000,
         correctGuess = 1, wrongGuess = 0,
         stdout = [TestImage 0 5 5 1000000, NumCorrect 1, NumWrong 0, Accuracy 100,
                   MinDuration 999999, MaxDuration 1000000, AvgDuration 1000000]\<rparr>,
        [])"
  by code_simp

section \<open>Accuracy\<close>

text \<open>
  C4. When \<^verbatim>\<open>SearchData\<close> returns normally (the number of rows being far below the point
  where \<open>100 * correctGuess\<close> could overflow 64 bits), the two counters add up to the number
  of rows, and the summary it prints is the two counters, the accuracy
  \<open>100 * correct / (correct + wrong)\<close> truncated towards zero, and the three durations. With
  9 correct and 1 wrong guess the accuracy printed is 90.
\<close>

theorem accuracy_is_truncated_percentage:
  assumes run: "SearchData rdb (Inr records) st db = (Ok (), st', db')"
    and len: "int (length records) \<le> 92233720368547758"
  shows "correctGuess st' + wrongGuess st' = int (length records)
       \<and> filter is_summary_line (stdout st') = filter is_summary_line (stdout st) @
           [NumCorrect (correctGuess st'), NumWrong (wrongGuess st'),
            Accuracy (trunc_div (100 * correctGuess st') (correctGuess st' + wrongGuess st')),
            MinDuration (minDuration st'), MaxDuration (maxDuration st'),
            AvgDuration (wrap64 (trunc_div (totalDuration st') (int (length records))))]
       \<and> (correctGuess st' = 9 \<and> wrongGuess st' = 1 \<longrightarrow> Accuracy 90 \<in> set (stdout st'))"
proof -
  let ?st0 = "st\<lparr>correctGuess := 0, wrongGuess := 0\<rparr>"
  from run obtain u st1 where loop: "search_loop rdb 0 records ?st0 db = (Ok u, st1, db')"
    and sum: "summary (int (length records)) st1 = (Ok (), st')"
    by (auto simp: SearchData_def split: prod.splits outcome.splits)
  have inv: "0 \<le> correctGuess st1 \<and> 0 \<le> wrongGuess st1
       \<and> correctGuess st1 + wrongGuess st1 = correctGuess ?st0 + wrongGuess ?st0 + int (length records)"
    using len by (intro search_loop_invariant [OF loop]) auto
  have lines: "filter is_summary_line (stdout st1) = filter is_summary_line (stdout st)"
    using search_loop_summary_lines [OF loop] by simp
  have s: "correctGuess st' = correctGuess st1 \<and> wrongGuess st' = wrongGuess st1
       \<and> stdout st' = stdout st1 @
           [NumCorrect (correctGuess st1), NumWrong (wrongGuess st1),
            Accuracy (trunc_div (100 * correctGuess st1) (correctGuess st1 + wrongGuess st1)),
            MinDuration (minDuration st1), MaxDuration (maxDuration st1),
            AvgDuration (wrap64 (trunc_div (totalDuration st1) (int (length records))))]"
    using inv len by (intro summary_Ok [OF sum]) auto
  have g: "minDuration st' = minDuration st1" "maxDuration st' = maxDuration st1"
    "totalDuration st' = totalDuration st1"
    using sum by (auto simp: summary_def Let_def split: outcome.splits)
  have a: "correctGuess st' + wrongGuess st' = int (length records)" using s inv by simp
  have b: "filter is_summary_line (stdout st') = filter is_summary_line (stdout st) @
           [NumCorrect (correctGuess st'), NumWrong (wrongGuess st'),
            Accuracy (trunc_div (100 * correctGuess st') (correctGuess st' + wrongGuess st')),
            MinDuration (minDuration st'), MaxDuration (maxDuration st'),
            AvgDuration (wrap64 (trunc_div (totalDuration st') (int (length records))))]"
    using s g lines by simp
  have c: "correctGuess st' = 9 \<and> wrongGuess st' = 1 \<longrightarrow> Accuracy 90 \<in> set (stdout st')"
  proof
    assume h: "correctGuess st' = 9 \<and> wrongGuess st' = 1"
    then have "trunc_div (100 * correctGuess st1) (correctGuess st1 + wrongGuess st1) = 90"
      using s by (simp add: trunc_div_def)
    then show "Accuracy 90 \<in> set (stdout st')" using s by simp
  qed
  show ?thesis using a b c by blast
qed

theorem accuracy_is_truncated_percentage_witness:
  "SearchData script (Inr (replicate 9 [''7'', ''0'', ''255''] @ [[''4'', ''0'', ''255'']])) main_init
     (replicate 10 (Inr (found ''number:0:7''), 30))
     = (Ok (),
        \<lparr>minDuration = 30, maxDuration = 30, totalDuration = 300, correctGuess = 9, wrongGuess = 1,
         stdout = [TestImage 0 7 7 30, TestImage 1 7 7 30, TestImage 2 7 7 30, TestImage 3 7 7 30,
                   TestImage 4 7 7 30, TestImage 5 7 7 30, TestImage 6 7 7 30, TestImage 7 7 7 30,
                   TestImage 8 7 7 30, TestImage 9 4 7 30, NumCorrect 9, NumWrong 1, Accuracy 90,
                   MinDuration 30, MaxDuration 30, AvgDuration 30]\<rparr>,
        [])
   \<and> int (length (replicate 9 [''7'', ''0'', ''255''] @ [[''4'', ''0'', ''255'']])) \<le> 92233720368547758
   \<and> Accuracy 90 \<in> set [TestImage 0 7 7 30, TestImage 1 7 7 30, TestImage 2 7 7 30, TestImage 3 7 7 30,
                   TestImage 4 7 7 30, TestImage 5 7 7 30, TestImage 6 7 7 30, TestImage 7 7 7 30,
                   TestImage 8 7 7 30, TestImage 9 4 7 30, NumCorrect 9, NumWrong 1, Accuracy 90,
                   MinDuration 30, MaxDuration 30, AvgDuration 30]"
proof -
  let ?rows = "replicate 9 [''7'', ''0'', ''255''] @ [[''4'', ''0'', ''255'']]"
  let ?st = "\<lparr>minDuration = 30, maxDuration = 30, totalDuration = 300, correctGuess = 9, wrongGuess = 1,
         stdout = [TestImage 0 7 7 30, TestImage 1 7 7 30, TestImage 2 7 7 30, TestImage 3 7 7 30,
                   TestImage 4 7 7 30, TestImage 5 7 7 30, TestImage 6 7 7 30, TestImage 7 7 7 30,
                   TestImage 8 7 7 30, TestImage 9 4 7 30, NumCorrect 9, NumWrong 1, Accuracy 90,
                   MinDuration 30, MaxDuration 30, AvgDuration 30]\<rparr>"
  have run: "SearchData script (Inr ?rows) main_init (replicate 10 (Inr (found ''number:0:7''), 30))
               = (Ok (), ?st, [])"
    by code_simp
  have len: "int (length ?rows) \<le> 92233720368547758" by simp
  show ?thesis
    using accuracy_is_truncated_percentage [OF run len] run len by simp
qed

section \<open>A failing search aborts the evaluation\<close>

text \<open>
  C7. Let the rows before some row have been searched and tallied, and let the search for
  that row return an error. Then \<^verbatim>\<open>SearchData\<close> returns that very error; the state it leaves
  is the state after the rows before, so the failed row is in neither counter (they add up
  to the number of rows before it), and no line of the summary has been printed.
\<close>

theorem search_failure_aborts_evaluation:
  assumes before: "search_loop rdb 0 pre (st\<lparr>correctGuess := 0, wrongGuess := 0\<rparr>) db = (Ok (), st1, db1)"
    and row: "Atoi label = Inr expectedResult" "embedding_of pixelValues = Inr embedding"
    and fails: "searchVectorInRedis rdb db1 embedding = (Err err, db2)"
    and len: "int (length pre) < 2 ^ 63"
  shows "SearchData rdb (Inr (pre @ (label # pixelValues) # post)) st db = (Err err, st1, db2)
       \<and> correctGuess st1 + wrongGuess st1 = int (length pre)
       \<and> filter is_summary_line (stdout st1) = filter is_summary_line (stdout st)"
proof -
  let ?st0 = "st\<lparr>correctGuess := 0, wrongGuess := 0\<rparr>"
  have "search_loop rdb (0 + int (length pre)) ((label # pixelValues) # post) st1 db1 = (Err err, st1, db2)"
    using row fails by simp
  then have "search_loop rdb 0 (pre @ (label # pixelValues) # post) ?st0 db = (Err err, st1, db2)"
    by (simp add: search_loop_append before)
  then have a: "SearchData rdb (Inr (pre @ (label # pixelValues) # post)) st db = (Err err, st1, db2)"
    by (simp add: SearchData_def)
  have "0 \<le> correctGuess st1 \<and> 0 \<le> wrongGuess st1
       \<and> correctGuess st1 + wrongGuess st1 = correctGuess ?st0 + wrongGuess ?st0 + int (length pre)"
    using len by (intro search_loop_invariant [OF before]) auto
  then have b: "correctGuess st1 + wrongGuess st1 = int (length pre)" by simp
  have c: "filter is_summary_line (stdout st1) = filter is_summary_line (stdout st)"
    using search_loop_summary_lines [OF before] by simp
  show ?thesis using a b c by blast
qed

theorem search_failure_aborts_evaluation_witness:
  "SearchData script (Inr ([[''5'', ''0'']] @ [''7'', ''1''] # [[''3'', ''2'']])) main_init
     [(Inr (found ''number:0:5''), 12), (Inl (ErrRedis ''i/o timeout''), 3000),
      (Inr (found ''number:0:3''), 1)]
     = (Err (ErrRedis ''i/o timeout''),
        \<lparr>minDuration = 12, maxDuration = 12, totalDuration = 12, correctGuess = 1, wrongGuess = 0,
         stdout = [TestImage 0 5 5 12]\<rparr>,
        [(Inr (found ''number:0:3''), 1)])
   \<and> filter is_summary_line [TestImage 0 5 5 12] = filter is_summary_line (stdout main_init)"
proof -
  let ?st1 = "\<lparr>minDuration = 12, maxDuration = 12, totalDuration = 12, correctGuess = 1,
                wrongGuess = 0, stdout = [TestImage 0 5 5 12]\<rparr>"
  let ?db = "[(Inr (found ''number:0:5''), 12), (Inl (ErrRedis ''i/o timeout''), 3000),
              (Inr (found ''number:0:3''), 1)]"
  have before: "search_loop script 0 [[''5'', ''0'']] (main_init\<lparr>correctGuess := 0, wrongGuess := 0\<rparr>) ?db
                  = (Ok (), ?st1, tl ?db)"
    by code_simp
  have label: "Atoi ''7'' = Inr 7" by code_simp
  have pixels: "embedding_of [''1''] = Inr [normalize_query 1]" by code_simp
  have fails: "searchVectorInRedis script (tl ?db) [normalize_query 1]
                 = (Err (ErrRedis ''i/o timeout''), [(Inr (found ''number:0:3''), 1)])"
    by (simp add: searchVectorInRedis_def convertFloat32ArrayToBlob_eq)
  have len: "int (length [[''5'', ''0'' :: string]]) < 2 ^ 63" by simp
  show ?thesis
    using search_failure_aborts_evaluation [OF before label pixels fails len, of "[[''3'', ''2'']]"]
    by simp
qed

section \<open>Facts about keys and the store loop\<close>

lemma colon_notin_show_int: "CHR '':'' \<notin> set (show_int i)"
  using colon_notin_show_nat [of i] colon_notin_show_nat [of "- i"] by (simp add: show_int_def)

lemma show_nat_first_digit: "0 \<le> n \<Longrightarrow> is_digit (hd (show_nat n))"
  using show_nat_digits [of n] show_nat_nonempty [of n] by (cases "show_nat n") simp_all

lemma show_int_inj: "show_int a = show_int b \<Longrightarrow> a = b"
proof -
  assume eq: "show_int a = show_int b"
  have neg_pos: False if "x < 0" "0 \<le> y" "show_int x = show_int y" for x y
  proof -
    from that have "CHR ''-'' # show_nat (- x) = show_nat y" by (simp add: show_int_def)
    then have "hd (show_nat y) = CHR ''-''" by (metis list.sel(1))
    then show False using show_nat_first_digit [OF that(2)] is_digit_not_sign by auto
  qed
  show ?thesis
  proof (cases "a < 0")
    case True
    show ?thesis
    proof (cases "b < 0")
      case True
      with \<open>a < 0\<close> eq have "show_nat (- a) = show_nat (- b)" by (simp add: show_int_def)
      then have "digits_val (show_nat (- a)) = digits_val (show_nat (- b))" by simp
      then show ?thesis using True \<open>a < 0\<close> by (simp add: digits_val_show_nat)
    next
      case False
      then show ?thesis using neg_pos [of a b] True eq by simp
    qed
  next
    case False
    show ?thesis
    proof (cases "b < 0")
      case True
      then show ?thesis using neg_pos [of b a] False eq by simp
    next
      case bpos: False
      with False eq have "show_nat a = show_nat b" by (simp add: show_int_def)
      then have "digits_val (show_nat a) = digits_val (show_nat b)" by simp
      then show ?thesis using False bpos by (simp add: digits_val_show_nat)
    qed
  qed
qed

lemma Split_key_of: "Split (key_of i l) (CHR '':'') = [''number'', show_int i, show_int l]"
proof -
  have "key_of i l = ''number'' @ CHR '':'' # (show_int i @ CHR '':'' # show_int l)"
    by (simp add: key_of_def)
  then show ?thesis
    by (simp only: Split_append) (simp add: Split_no_sep colon_notin_show_int)
qed

lemma key_of_inj: "key_of i l = key_of j m \<Longrightarrow> i = j \<and> l = m"
proof -
  assume "key_of i l = key_of j m"
  then have "Split (key_of i l) (CHR '':'') = Split (key_of j m) (CHR '':'')" by simp
  then show ?thesis by (simp add: Split_key_of show_int_inj)
qed

lemma store_row_Ok:
  "store_row i row = Ok (l, k, d) \<Longrightarrow>
   k = key_of i l \<and> store_row j row = Ok (l, key_of j l, d)"
  by (auto simp: store_row_def split: list.splits sum.splits)

lemma map_of_kv_set: "map_of (kv_set k v db) = (map_of db)(k \<mapsto> v)"
  by (induction db) auto

lemma keyspace_json_set: "keyspace db (json_set key d) = (Inr (RStr ''OK''), 0, kv_set key d db)"
  by (simp add: json_set_def)

lemma store_loop_keyspace_other:
  "store_loop keyspace i rows st db = (r, st', db') \<Longrightarrow>
   (\<And>n l. i \<le> n \<Longrightarrow> k \<noteq> key_of n l) \<Longrightarrow> map_of db' k = map_of db k"
proof (induction rows arbitrary: i st db)
  case Nil
  then show ?case by simp
next
  case (Cons row rows)
  show ?case
  proof (cases "store_row i row")
    case (Ok x)
    obtain l key d where x: "x = (l, key, d)" by (cases x) auto
    have key: "key = key_of i l" using Ok x store_row_Ok by blast
    have rest: "store_loop keyspace (i + 1) rows (print (Stored i l) st) (kv_set key d db) = (r, st', db')"
      using Cons.prems(1) Ok x by (simp add: keyspace_json_set)
    have "map_of db' k = map_of (kv_set key d db) k"
      using Cons.IH [OF rest] Cons.prems(2) by simp
    moreover have "k \<noteq> key" using Cons.prems(2) [of i l] key by simp
    ultimately show ?thesis by (simp add: map_of_kv_set)
  next
    case (Err e)
    then show ?thesis using Cons.prems(1) by simp
  next
    case (Panic p)
    then show ?thesis using Cons.prems(1) by simp
  qed
qed

lemma store_loop_keyspace_stored:
  "store_loop keyspace i rows st db = (Ok u, st', db') \<Longrightarrow> n < length rows \<Longrightarrow>
   \<exists>l d. store_row (i + int n) (rows ! n) = Ok (l, key_of (i + int n) l, d)
       \<and> map_of db' (key_of (i + int n) l) = Some d"
proof (induction rows arbitrary: i st db n)
  case Nil
  then show ?case by simp
next
  case (Cons row rows)
  from Cons.prems(1) obtain l key d where row: "store_row i row = Ok (l, key, d)"
    by (cases "store_row i row") (auto split: prod.splits)
  have key: "key = key_of i l" using row store_row_Ok by blast
  have rest: "store_loop keyspace (i + 1) rows (print (Stored i l) st) (kv_set key d db) = (Ok u, st', db')"
    using Cons.prems(1) row by (simp add: keyspace_json_set)
  show ?case
  proof (cases n)
    case 0
    have "map_of db' key = map_of (kv_set key d db) key"
    proof (rule store_loop_keyspace_other [OF rest])
      fix m l'
      assume "i + 1 \<le> m"
      then show "key \<noteq> key_of m l'" using key key_of_inj [of i l m l'] by auto
    qed
    then show ?thesis using 0 row key by (simp add: map_of_kv_set)
  next
    case (Suc m)
    then have "m < length rows" using Cons.prems(2) by simp
    have idx: "i + 1 + int m = i + int n" using Suc by simp
    from Cons.IH [OF rest \<open>m < length rows\<close>] show ?thesis using Suc by (simp add: idx)
  qed
qed

lemma pixelStrings_bad: "\<not> list_all numeric pixels \<Longrightarrow> \<exists>err. pixelStrings pixels = Inl err"
  by (induction pixels) (auto simp: numeric_def split: sum.splits)

lemma pixelStrings_good:
  "list_all numeric pixels \<Longrightarrow> \<exists>ps. pixelStrings pixels = Inr ps \<and> length ps = length pixels"
  by (induction pixels) (auto simp: numeric_def split: sum.splits)

lemma store_row_bad:
  assumes "bad \<noteq> []" "\<not> list_all numeric bad"
  shows "\<exists>err. store_row i bad = Err err"
proof -
  obtain label pixels where b: "bad = label # pixels" using assms(1) by (cases bad) auto
  show ?thesis
  proof (cases "Atoi label")
    case (Inl e)
    then show ?thesis by (simp add: store_row_def b)
  next
    case (Inr v)
    then have "\<not> list_all numeric pixels" using assms(2) b by (simp add: numeric_def)
    then obtain err where "pixelStrings pixels = Inl err" using pixelStrings_bad by blast
    then show ?thesis using Inr by (simp add: store_row_def b)
  qed
qed

lemma store_row_good:
  assumes "row \<noteq> []" "list_all numeric row"
  shows "\<exists>l ps. store_row i row = Ok (l, key_of i l, jsonData l (Join ps '','')) \<and> length ps = length row - 1"
proof -
  obtain label pixels where b: "row = label # pixels" using assms(1) by (cases row) auto
  obtain l where l: "Atoi label = Inr l" using assms(2) b by (auto simp: numeric_def split: sum.splits)
  obtain ps where "pixelStrings pixels = Inr ps" "length ps = length pixels"
    using assms(2) b pixelStrings_good by fastforce
  then have "store_row i row = Ok (l, key_of i l, jsonData l (Join ps '','')) \<and> length ps = length row - 1"
    using l by (simp add: store_row_def b)
  then show ?thesis by blast
qed

lemma store_row_Ok_numeric:
  "store_row i row = Ok x \<Longrightarrow> row \<noteq> [] \<and> list_all numeric row"
proof (rule ccontr)
  assume ok: "store_row i row = Ok x" and n: "\<not> (row \<noteq> [] \<and> list_all numeric row)"
  show False
  proof (cases "row = []")
    case True
    then show False using ok by (simp add: store_row_def)
  next
    case False
    then show False using n ok store_row_bad [of row i] by auto
  qed
qed

lemma store_loop_Ok_numeric:
  "store_loop rdb i rows st db = (Ok u, st', db') \<Longrightarrow>
   list_all (\<lambda>row. row \<noteq> [] \<and> list_all numeric row) rows"
proof (induction rows arbitrary: i st db)
  case Nil
  then show ?case by simp
next
  case (Cons row rows)
  from Cons.prems obtain x where x: "store_row i row = Ok x"
    by (cases "store_row i row") auto
  obtain l key d where xx: "x = (l, key, d)" by (cases x) auto
  from Cons.prems x xx obtain db1 where
    "store_loop rdb (i + 1) rows (print (Stored i l) st) db1 = (Ok u, st', db')"
    by (auto split: prod.splits sum.splits)
  then have "list_all (\<lambda>row. row \<noteq> [] \<and> list_all numeric row) rows" by (rule Cons.IH)
  then show ?case using store_row_Ok_numeric [OF x] by simp
qed

lemma store_loop_append:
  "store_loop rdb i (xs @ ys) st db =
     (case store_loop rdb i xs st db of
        (Ok u, st1, db1) \<Rightarrow> store_loop rdb (i + int (length xs)) ys st1 db1
      | (Err err, st1, db1) \<Rightarrow> (Err err, st1, db1)
      | (Panic p, st1, db1) \<Rightarrow> (Panic p, st1, db1))"
proof (induction xs arbitrary: i st db)
  case Nil
  then show ?case by simp
next
  case (Cons x xs)
  have "i + 1 + int (length xs) = i + int (length (x # xs))" by simp
  then show ?case
    by (simp add: Cons.IH add.assoc split: sum.splits outcome.splits prod.splits)
qed

section \<open>Facts about rounding and printing a float\<close>

lemma round_even_err: "\<bar>of_int (round_even x) - x\<bar> \<le> 1 / 2"
proof -
  define f where "f = \<lfloor>x\<rfloor>"
  define d where "d = x - of_int f"
  have b: "0 \<le> d" "d < 1" unfolding d_def f_def by linarith+
  have x: "x = of_int f + d" by (simp add: d_def)
  have r: "round_even x = (if d < 1 / 2 then f else if 1 / 2 < d then f + 1 else if even f then f else f + 1)"
    by (simp add: round_even_def Let_def f_def d_def)
  have fx: "of_int f - x = - d" by (simp add: d_def)
  have fx1: "of_int (f + 1) - x = 1 - d" by (simp add: d_def)
  show ?thesis
  proof (cases "d < 1 / 2")
    case True
    then have "round_even x = f" using r by simp
    then show ?thesis using fx b True by simp
  next
    case False
    show ?thesis
    proof (cases "1 / 2 < d")
      case True
      then have "round_even x = f + 1" using r False by simp
      then show ?thesis using fx1 b True by simp
    next
      case F2: False
      then have h: "d = 1 / 2" using False by simp
      have "round_even x = f \<or> round_even x = f + 1" using r by simp
      then show ?thesis using fx fx1 h by auto
    qed
  qed
qed

lemma round_even_nonneg: "0 \<le> x \<Longrightarrow> 0 \<le> round_even x"
  by (auto simp: round_even_def Let_def)

lemma pad6_digits: "0 \<le> m \<Longrightarrow> list_all is_digit (pad6 m)"
  by (simp add: pad6_def is_digit_digit_char)

lemma pad6_length: "length (pad6 m) = 6"
  by (simp add: pad6_def)

lemma pad6_val:
  assumes "0 \<le> m" "m < 1000000"
  shows "digits_val (pad6 m) = m"
proof -
  have e1: "m div 100 = m div 10 div 10" using zdiv_zmult2_eq [of 10 m 10] by simp
  have e2: "m div 1000 = m div 100 div 10" using zdiv_zmult2_eq [of 10 m 100] by simp
  have e3: "m div 10000 = m div 1000 div 10" using zdiv_zmult2_eq [of 10 m 1000] by simp
  have e4: "m div 100000 = m div 10000 div 10" using zdiv_zmult2_eq [of 10 m 10000] by simp
  have e5: "m div 1000000 = m div 100000 div 10" using zdiv_zmult2_eq [of 10 m 100000] by simp
  have z: "m div 1000000 = 0" using assms by simp
  have s: "a mod 10 = a - 10 * (a div 10)" for a :: int
    by (simp add: minus_mult_div_eq_mod)
  have "digits_val (pad6 m) =
      10 * (10 * (10 * (10 * (10 * (m div 100000 mod 10) + m div 10000 mod 10) + m div 1000 mod 10)
        + m div 100 mod 10) + m div 10 mod 10) + m mod 10"
    using assms by (simp add: pad6_def digits_val_def digit_val_digit_char)
  also have "\<dots> = m"
  proof -
    have lin: "10 * (10 * (10 * (10 * (10 * d5 + d4) + d3) + d2) + d1) + d0 = m"
      if "m = 10 * q1 + d0" "q1 = 10 * q2 + d1" "q2 = 10 * q3 + d2" "q3 = 10 * q4 + d3"
        "q4 = 10 * q5 + d4" "q5 = d5"
      for d0 d1 d2 d3 d4 d5 q1 q2 q3 q4 q5 :: int
      using that by simp
    have q5: "m div 100000 = m div 100000 mod 10"
      using s [of "m div 100000"] e5 z by simp
    show ?thesis
    proof (rule lin)
      show "m = 10 * (m div 10) + m mod 10" by simp
      show "m div 10 = 10 * (m div 100) + m div 10 mod 10" by (simp add: e1)
      show "m div 100 = 10 * (m div 1000) + m div 100 mod 10" by (simp add: e2)
      show "m div 1000 = 10 * (m div 10000) + m div 1000 mod 10" by (simp add: e3)
      show "m div 10000 = 10 * (m div 100000) + m div 10000 mod 10" by (simp add: e4)
      show "m div 100000 = m div 100000 mod 10" by (rule q5)
    qed
  qed
  finally show ?thesis .
qed

lemma dot_notin_digits: "list_all is_digit s \<Longrightarrow> CHR ''.'' \<notin> set s"
  using is_digit_not_sign by (auto simp: list_all_iff)

lemma decimal_value_Sprintf_6f:
  assumes "0 \<le> f"
  shows "decimal_value (Sprintf_6f f) = Some (of_int (round_even (f * 1000000)) / 1000000)"
proof -
  define k where "k = round_even (f * 1000000)"
  define ip where "ip = show_nat (k div 1000000)"
  define fp where "fp = pad6 (k mod 1000000)"
  have k: "0 \<le> k" unfolding k_def using assms by (intro round_even_nonneg) simp
  have layout: "Sprintf_6f f = ip @ CHR ''.'' # fp"
    using assms by (simp add: Sprintf_6f_def Let_def k_def ip_def fp_def)
  have ipd: "list_all is_digit ip" "ip \<noteq> []"
    using k by (simp_all add: ip_def show_nat_digits show_nat_nonempty pos_imp_zdiv_nonneg_iff)
  have fpd: "list_all is_digit fp" "fp \<noteq> []" "length fp = 6"
    using pad6_length [of "k mod 1000000"] by (auto simp: fp_def pad6_digits)
  obtain c r where cr: "ip = c # r" using ipd(2) by (cases ip) auto
  then have "is_digit c" using ipd(1) by simp
  then have c: "c \<noteq> CHR ''-''" "c \<noteq> CHR ''+''" using is_digit_not_sign by auto
  have nosign: "strip_sign (ip @ CHR ''.'' # fp) = ip @ CHR ''.'' # fp" "\<not> is_negative (ip @ CHR ''.'' # fp)"
    using cr c by (simp_all add: strip_sign_def is_negative_def)
  have pieces: "Split (ip @ CHR ''.'' # fp) (CHR ''.'') = [ip, fp]"
    using ipd(1) fpd(1) by (simp add: Split_append Split_no_sep dot_notin_digits)
  have vi: "digits_rat ip = Some (of_int (k div 1000000))"
    using ipd k by (simp add: digits_rat_def ip_def digits_val_show_nat pos_imp_zdiv_nonneg_iff)
  have vf: "digits_rat fp = Some (of_int (k mod 1000000))"
    using fpd by (simp add: digits_rat_def fp_def pad6_val)
  have "k = 1000000 * (k div 1000000) + k mod 1000000" by simp
  then have "(of_int k :: rat) = 1000000 * of_int (k div 1000000) + of_int (k mod 1000000)"
    by (metis of_int_add of_int_mult of_int_numeral)
  then have sum: "(of_int (k div 1000000) :: rat) + of_int (k mod 1000000) / 1000000 = of_int k / 1000000"
    by (simp add: field_simps)
  show ?thesis
    using vi vf fpd(3) sum nosign
    by (simp add: layout decimal_value_def Let_def pieces k_def)
qed

lemma pow2_pos: "0 < pow2 e"
  by (simp add: pow2_def)

lemma f32_round_nonneg: "0 \<le> x \<Longrightarrow> 0 \<le> f32_round x"
proof -
  assume x: "0 \<le> x"
  have "0 \<le> round_even (\<bar>x\<bar> / pow2 (exponent2 \<bar>x\<bar> - 23))"
    using pow2_pos [of "exponent2 \<bar>x\<bar> - 23"] by (intro round_even_nonneg) simp
  then show ?thesis
    using x pow2_pos [of "exponent2 \<bar>x\<bar> - 23"] by (simp add: f32_round_def Let_def)
qed

lemma normalize_query_nonneg: "0 \<le> p \<Longrightarrow> 0 \<le> normalize_query p"
  by (simp add: normalize_query_def f32_div_def f32_of_int_def f32_round_nonneg)

lemma normalize_query_0: "normalize_query 0 = 0"
  by (simp add: normalize_query_def f32_div_def f32_of_int_def f32_round_def)

lemma round_even_of_int: "round_even (of_int n) = n"
  by (simp add: round_even_def)

lemma f32_of_int_exact:
  assumes "0 \<le> p" "p < 2 ^ 24"
  shows "f32_of_int p = of_int p"
proof (cases "p = 0")
  case True
  then show ?thesis by (simp add: f32_of_int_def f32_round_def)
next
  case False
  then have pos: "0 < p" using assms by simp
  have e: "exponent2 (of_int p) = bitlen p - 1" using pos by (simp add: exponent2_def)
  have "bitlen p \<le> 24" using assms(2) by (simp add: bitlen_le_iff_power)
  then have le: "bitlen p - 24 \<le> 0" by simp
  define k where "k = nat (24 - bitlen p)"
  have ulp: "pow2 (bitlen p - 24) = 1 / 2 ^ k"
  proof (cases "bitlen p - 24 = 0")
    case True
    then show ?thesis by (simp add: pow2_def k_def)
  next
    case False
    then have "bitlen p - 24 < 0" using le by simp
    then show ?thesis by (simp add: pow2_def k_def algebra_simps)
  qed
  have "(of_int p :: rat) * 2 ^ k = of_int (p * 2 ^ k)" by simp
  then have r: "round_even (of_int p * 2 ^ k) = p * 2 ^ k"
    by (simp only: round_even_of_int)
  have "f32_of_int p = of_int (round_even (of_int p / pow2 (bitlen p - 24))) * pow2 (bitlen p - 24)"
    using pos by (simp add: f32_of_int_def f32_round_def Let_def e)
  also have "\<dots> = of_int (round_even (of_int p * 2 ^ k)) * (1 / 2 ^ k)"
    by (simp only: ulp) simp
  also have "\<dots> = of_int p" by (simp only: r) simp
  finally show ?thesis .
qed

lemma f32_round_err_unit:
  assumes "0 < x" "x \<le> 1"
  shows "\<bar>f32_round x - x\<bar> \<le> 1 / 2 ^ 24"
proof -
  define e where "e = exponent2 \<bar>x\<bar>"
  define ulp where "ulp = pow2 (e - 23)"
  have e0: "e \<le> 0"
  proof (cases "x = 1")
    case True
    have "bitlen 1 = 1" by (simp add: bitlen_alt_def)
    then show ?thesis using True by (simp add: e_def exponent2_def)
  next
    case False
    then have "x < 1" using assms by simp
    then show ?thesis using assms bitlen_nonneg [of "\<lceil>1 / x\<rceil> - 1"] by (simp add: e_def exponent2_def)
  qed
  have ulp_pos: "0 < ulp" by (simp add: ulp_def pow2_pos)
  have "(2::rat) ^ 23 \<le> 2 ^ nat (23 - e)" using e0 by (intro power_increasing) auto
  then have ulp_le: "ulp \<le> 1 / 2 ^ 23"
    using e0 by (simp add: ulp_def pow2_def frac_le algebra_simps)
  have r: "f32_round x = of_int (round_even (x / ulp)) * ulp"
    using assms by (simp add: f32_round_def Let_def ulp_def e_def)
  have "f32_round x - x = (of_int (round_even (x / ulp)) - x / ulp) * ulp"
    using ulp_pos by (simp add: r algebra_simps)
  then have "\<bar>f32_round x - x\<bar> = \<bar>of_int (round_even (x / ulp)) - x / ulp\<bar> * ulp"
    using ulp_pos by (simp add: abs_mult)
  also have "\<dots> \<le> (1 / 2) * ulp"
    using round_even_err [of "x / ulp"] ulp_pos by (intro mult_right_mono) auto
  also have "\<dots> \<le> (1 / 2) * (1 / 2 ^ 23)" using ulp_le by simp
  finally show ?thesis by simp
qed

lemma normalize_query_err:
  assumes "0 \<le> p" "p \<le> 255"
  shows "\<bar>normalize_query p - of_int p / 255\<bar> \<le> 1 / 2 ^ 24"
proof (cases "p = 0")
  case True
  then show ?thesis by (simp add: normalize_query_0)
next
  case False
  have ex: "f32_of_int p = of_int p" using assms by (intro f32_of_int_exact) auto
  have "0 < (of_int p :: rat) / 255" "(of_int p :: rat) / 255 \<le> 1" using assms False by auto
  then show ?thesis
    using f32_round_err_unit [of "of_int p / 255"] by (simp add: normalize_query_def f32_div_def ex)
qed

section \<open>Keys of the records of one ingestion\<close>

text \<open>
  C8. The key \<^verbatim>\<open>number:i:result\<close> determines the row index \<open>i\<close> (and the label), so two rows of
  one run never share a key. The key of a row is made from its index in the file, counted
  from 0, while the document stored under it is the same whatever the index. After a run
  of \<^verbatim>\<open>StoreData\<close> that succeeds on a keyspace, every row's document is found under that row's
  own key: no row of the run has overwritten another. The key takes no part in a search:
  the \<^verbatim>\<open>FT.SEARCH\<close> command carries the query blob and no key.
\<close>

theorem keys_unique_and_from_row_index:
  "(key_of i l = key_of j m \<longrightarrow> i = j \<and> l = m)
   \<and> (store_row ia row = Ok (result, k, d) \<longrightarrow>
        k = key_of ia result \<and> store_row ja row = Ok (result, key_of ja result, d))
   \<and> (StoreData keyspace (Inr rows) st db = (Ok (), st', db') \<and> n < length rows \<longrightarrow>
        (\<exists>r doc. store_row (int n) (rows ! n) = Ok (r, key_of (int n) r, doc)
              \<and> map_of db' (key_of (int n) r) = Some doc))
   \<and> AStr (key_of i l) \<notin> set (searchQuery blob)"
proof -
  have c: "\<exists>r doc. store_row (int n) (rows ! n) = Ok (r, key_of (int n) r, doc)
              \<and> map_of db' (key_of (int n) r) = Some doc"
    if run: "StoreData keyspace (Inr rows) st db = (Ok (), st', db')" and n: "n < length rows"
  proof -
    from run obtain u st1 where "store_loop keyspace 0 rows st db = (Ok u, st1, db')"
      by (auto simp: StoreData_def split: prod.splits outcome.splits)
    from store_loop_keyspace_stored [OF this n] show ?thesis by simp
  qed
  have d: "AStr (key_of i l) \<notin> set (searchQuery blob)"
    by (simp add: searchQuery_def key_of_def)
  show ?thesis using key_of_inj store_row_Ok c d by blast
qed

theorem keys_unique_and_from_row_index_witness:
  \<open>key_of 0 5 = key_of 0 5
   \<and> store_row 0 [''5'', ''0''] = Ok (5, ''number:0:5'', ''{"result": 5, "embedding": [0]}'')
   \<and> store_row 1 [''5'', ''0''] = Ok (5, key_of 1 5, ''{"result": 5, "embedding": [0]}'')
   \<and> StoreData keyspace (Inr [[''5'', ''0''], [''5'', ''0'']]) main_init []
        = (Ok (), print AllStored (print (Stored 1 5) (print (Stored 0 5) main_init)),
           [(''number:0:5'', ''{"result": 5, "embedding": [0]}''),
            (''number:1:5'', ''{"result": 5, "embedding": [0]}'')])
   \<and> (\<exists>r doc. store_row (int 1) ([[''5'', ''0''], [''5'', ''0'']] ! 1) = Ok (r, key_of (int 1) r, doc)
          \<and> map_of [(''number:0:5'', ''{"result": 5, "embedding": [0]}''),
                     (''number:1:5'', ''{"result": 5, "embedding": [0]}'')] (key_of (int 1) r) = Some doc)\<close>
proof -
  have h1: "key_of 0 5 = key_of 0 5" by simp
  have h2: \<open>store_row 0 [''5'', ''0''] = Ok (5, ''number:0:5'', ''{"result": 5, "embedding": [0]}'')\<close>
    by code_simp
  have h3: \<open>StoreData keyspace (Inr [[''5'', ''0''], [''5'', ''0'']]) main_init []
        = (Ok (), print AllStored (print (Stored 1 5) (print (Stored 0 5) main_init)),
           [(''number:0:5'', ''{"result": 5, "embedding": [0]}''),
            (''number:1:5'', ''{"result": 5, "embedding": [0]}'')])\<close>
    by code_simp
  have h4: "(1::nat) < length [[''5'', ''0''], [''5'', ''0'' :: string]]" by simp
  show ?thesis
    using keys_unique_and_from_row_index
      [where i = 0 and l = 5 and j = 0 and m = 5 and row = "[''5'', ''0'']" and result = 5
         and k = "''number:0:5''" and d = \<open>''{"result": 5, "embedding": [0]}''\<close>
         and rows = "[[''5'', ''0''], [''5'', ''0'']]" and st = main_init and db = "[]"
         and st' = "print AllStored (print (Stored 1 5) (print (Stored 0 5) main_init))"
         and db' = \<open>[(''number:0:5'', ''{"result": 5, "embedding": [0]}''),
                      (''number:1:5'', ''{"result": 5, "embedding": [0]}'')]\<close>
         and n = 1 and ia = 0 and ja = 1]
      h1 h2 h3 h4
    by blast
qed

section \<open>A malformed row during ingestion\<close>

text \<open>
  C3, as claimed: a malformed row makes \<^verbatim>\<open>StoreData\<close> fail and leaves the store unchanged.
  Not so: the rows are written one by one, and with a first row that is well formed and a
  second row whose label is not a number, \<^verbatim>\<open>StoreData\<close> fails on the second row after the
  first has been stored. The first row has a single intensity field, not 784, and is stored
  all the same.
\<close>

theorem partial_ingestion_counterexample:
  \<open>StoreData keyspace (Inr [[''5'', ''0''], [''x'', ''0'']]) main_init []
     = (Err (ErrSyntax ''x''), print (Stored 0 5) main_init,
        [(''number:0:5'', ''{"result": 5, "embedding": [0]}'')])\<close>
  by code_simp

text \<open>
  C3, amended. If the rows before a row have been stored and that row has a field that is
  not a number, \<^verbatim>\<open>StoreData\<close> returns an error at that row, in the state reached before it:
  the row is not skipped, it and the rows after it are not stored, the rows before it stay
  stored. A run that returns without error has met only rows whose fields are all numbers.
  A row whose number of fields differs from the first row's makes the reading of the file
  fail, before anything is stored. The number of fields is not compared with 784: a row of
  numbers of any length gets its key and its document.
\<close>

theorem ingestion_stops_at_first_bad_row:
  "(store_loop rdb 0 pre st db = (Ok (), st1, db1) \<and> bad \<noteq> [] \<and> \<not> list_all numeric bad \<longrightarrow>
      (\<exists>err. StoreData rdb (Inr (pre @ bad # post)) st db = (Err err, st1, db1)))
   \<and> (StoreData rdb (Inr rows) st db = (Ok (), st', db') \<longrightarrow>
        list_all (\<lambda>row. row \<noteq> [] \<and> list_all numeric row) rows)
   \<and> (\<not> list_all (\<lambda>x. length x = length r) rs \<longrightarrow>
        StoreData rdb (ReadAll (r # rs)) st db = (Err ErrFieldCount, st, db))
   \<and> (row \<noteq> [] \<and> list_all numeric row \<longrightarrow> (\<exists>l d. store_row i row = Ok (l, key_of i l, d)))"
proof -
  have a: "\<exists>err. StoreData rdb (Inr (pre @ bad # post)) st db = (Err err, st1, db1)"
    if pre: "store_loop rdb 0 pre st db = (Ok (), st1, db1)" and bad: "bad \<noteq> []" "\<not> list_all numeric bad"
  proof -
    obtain err where "store_row (0 + int (length pre)) bad = Err err"
      using store_row_bad [OF bad] by blast
    then have "store_loop rdb (0 + int (length pre)) (bad # post) st1 db1 = (Err err, st1, db1)"
      by simp
    then have "store_loop rdb 0 (pre @ bad # post) st db = (Err err, st1, db1)"
      by (simp add: store_loop_append pre)
    then show ?thesis by (auto simp: StoreData_def)
  qed
  have b: "list_all (\<lambda>row. row \<noteq> [] \<and> list_all numeric row) rows"
    if run: "StoreData rdb (Inr rows) st db = (Ok (), st', db')"
  proof -
    from run obtain u st2 where "store_loop rdb 0 rows st db = (Ok u, st2, db')"
      by (auto simp: StoreData_def split: prod.splits outcome.splits)
    then show ?thesis by (rule store_loop_Ok_numeric)
  qed
  have c: "StoreData rdb (ReadAll (r # rs)) st db = (Err ErrFieldCount, st, db)"
    if "\<not> list_all (\<lambda>x. length x = length r) rs"
    using that by (simp add: ReadAll_def StoreData_def)
  have d: "\<exists>l d. store_row i row = Ok (l, key_of i l, d)" if "row \<noteq> []" "list_all numeric row"
    using store_row_good [OF that, of i] by blast
  show ?thesis using a b c d by blast
qed

theorem ingestion_stops_at_first_bad_row_witness:
  \<open>(\<exists>err. StoreData keyspace (Inr ([[''5'', ''0'']] @ [''7'', ''1x''] # [[''3'', ''2'']])) main_init []
       = (Err err, print (Stored 0 5) main_init, [(''number:0:5'', ''{"result": 5, "embedding": [0]}'')]))
   \<and> list_all (\<lambda>row. row \<noteq> [] \<and> list_all numeric row) [[''5'', ''0'']]
   \<and> StoreData keyspace (ReadAll ([''1'', ''2''] # [[''3'']])) main_init [] = (Err ErrFieldCount, main_init, [])
   \<and> (\<exists>l d. store_row 0 [''5'', ''0'', ''255''] = Ok (l, key_of 0 l, d))\<close>
proof -
  have h1: \<open>store_loop keyspace 0 [[''5'', ''0'']] main_init []
      = (Ok (), print (Stored 0 5) main_init, [(''number:0:5'', ''{"result": 5, "embedding": [0]}'')])\<close>
    by code_simp
  have h2: "[''7'', ''1x''] \<noteq> [] \<and> \<not> list_all numeric [''7'', ''1x'']" by code_simp
  have h3: \<open>StoreData keyspace (Inr [[''5'', ''0'']]) main_init []
      = (Ok (), print AllStored (print (Stored 0 5) main_init),
         [(''number:0:5'', ''{"result": 5, "embedding": [0]}'')])\<close>
    by code_simp
  have h4: "\<not> list_all (\<lambda>x. length x = length [''1'', ''2'']) [[''3'']]" by simp
  have h5: "[''5'', ''0'', ''255''] \<noteq> [] \<and> list_all numeric [''5'', ''0'', ''255'']" by code_simp
  show ?thesis
    using ingestion_stops_at_first_bad_row
      [where rdb = keyspace and pre = "[[''5'', ''0'']]" and st = main_init and db = "[]"
         and ?st1.0 = "print (Stored 0 5) main_init"
         and ?db1.0 = \<open>[(''number:0:5'', ''{"result": 5, "embedding": [0]}'')]\<close>
         and bad = "[''7'', ''1x'']" and post = "[[''3'', ''2'']]"
         and rows = "[[''5'', ''0'']]"
         and st' = "print AllStored (print (Stored 0 5) main_init)"
         and db' = \<open>[(''number:0:5'', ''{"result": 5, "embedding": [0]}'')]\<close>
         and r = "[''1'', ''2'']" and rs = "[[''3'']]"
         and row = "[''5'', ''0'', ''255'']" and i = 0]
      h1 h2 h3 h4 h5
    by blast
qed

section \<open>Facts about the stored embedding\<close>

lemma is_digit_not_comma: "is_digit c \<Longrightarrow> c \<noteq> CHR '',''"
  by (auto simp: is_digit_def)

lemma comma_notin_digits: "list_all is_digit s \<Longrightarrow> CHR '','' \<notin> set s"
  using is_digit_not_comma by (auto simp: list_all_iff)

lemma comma_notin_Sprintf_6f: "CHR '','' \<notin> set (Sprintf_6f f)"
proof -
  define k where "k = round_even (\<bar>f\<bar> * 1000000)"
  have k: "0 \<le> k" unfolding k_def by (intro round_even_nonneg) simp
  have a: "CHR '','' \<notin> set (show_nat (k div 1000000))"
    using k by (intro comma_notin_digits show_nat_digits) (simp add: pos_imp_zdiv_nonneg_iff)
  have b: "CHR '','' \<notin> set (pad6 (k mod 1000000))"
    by (intro comma_notin_digits pad6_digits) simp
  show ?thesis using a b by (simp add: Sprintf_6f_def Let_def k_def)
qed

lemma comma_notin_normalize_store: "CHR '','' \<notin> set (normalize_store v)"
  by (simp add: normalize_store_def comma_notin_Sprintf_6f)

lemma pixelStrings_entries:
  "pixelStrings pixels = Inr ps \<Longrightarrow>
   length ps = length pixels \<and> list_all (\<lambda>s. CHR '','' \<notin> set s) ps"
proof (induction pixels arbitrary: ps)
  case Nil
  then show ?case by simp
next
  case (Cons pixel pixels)
  then show ?case
    by (auto simp: comma_notin_normalize_store split: sum.splits)
qed

lemma Split_Join:
  "ps \<noteq> [] \<Longrightarrow> list_all (\<lambda>s. sep \<notin> set s) ps \<Longrightarrow> Split (Join ps [sep]) sep = ps"
proof (induction ps "[sep]" rule: Join.induct)
  case 1
  then show ?case by simp
next
  case (2 x)
  then show ?case by (simp add: Split_no_sep)
next
  case (3 x y ys)
  then have "Split (Join (y # ys) [sep]) sep = y # ys" by simp
  moreover have "Join (x # y # ys) [sep] = x @ sep # Join (y # ys) [sep]" by simp
  ultimately show ?case using 3(3) by (simp only: Split_append) (simp add: Split_no_sep)
qed

lemma store_row_doc:
  "store_row i row = Ok (l, k, d) \<Longrightarrow>
   \<exists>ps. Atoi (hd row) = Inr l \<and> pixelStrings (tl row) = Inr ps \<and> d = jsonData l (Join ps '','')"
  by (auto simp: store_row_def split: list.splits sum.splits)

lemma store_loop_keyspace_accepts:
  "list_all (\<lambda>row. row \<noteq> [] \<and> list_all numeric row) rows \<Longrightarrow>
   \<exists>st' db'. store_loop keyspace i rows st db = (Ok (), st', db')"
proof (induction rows arbitrary: i st db)
  case Nil
  then show ?case by simp
next
  case (Cons row rows)
  then have "row \<noteq> []" "list_all numeric row" by simp_all
  from store_row_good [OF this, of i] obtain l d where r: "store_row i row = Ok (l, key_of i l, d)"
    by blast
  have "\<exists>st' db'. store_loop keyspace (i + 1) rows (print (Stored i l) st) (kv_set (key_of i l) d db)
          = (Ok (), st', db')"
    using Cons.prems by (intro Cons.IH) simp
  then show ?case using r by (simp add: keyspace_json_set)
qed

section \<open>The dimension of a vector\<close>

text \<open>
  C5, as claimed: a query or a record whose length is not 784 is rejected. Not so for a
  record: a row with two intensity fields is turned into a document with an embedding of
  two numbers, sent to the store and stored, and \<^verbatim>\<open>StoreData\<close> returns without error.
\<close>

theorem short_record_stored_counterexample:
  \<open>StoreData keyspace (Inr [[''5'', ''0'', ''255'']]) main_init []
     = (Ok (), print AllStored (print (Stored 0 5) main_init),
        [(''number:0:5'', ''{"result": 5, "embedding": [0,1.000000]}'')])
   \<and> pixelStrings [''0'', ''255''] = Inr [''0'', ''1.000000'']
   \<and> length [''0'', ''1.000000''] \<noteq> 784\<close>
  by code_simp

text \<open>
  C5, amended. A query whose length \<open>n\<close> is not 784 fails: \<^verbatim>\<open>searchVectorInRedis\<close> compares no
  length itself, it sends the query as a blob of \<open>4 * n\<close> bytes, and when the server refuses
  every blob that is not of 3136 bytes, as the server of the index does, the search returns
  the server's error for that blob to its caller. A record is not rejected: on a keyspace,
  \<^verbatim>\<open>StoreData\<close> succeeds on rows of numbers of any length, and the document stored under the
  key of a row has an embedding with exactly one entry for each intensity field of the row.
\<close>

theorem queries_refused_by_server_records_not:
  "((\<forall>b. length b \<noteq> 3136 \<longrightarrow> fst (rdb db (searchQuery b)) = Inl (refusal b))
      \<and> length embedding \<noteq> 784 \<longrightarrow>
      (\<exists>blob. convertFloat32ArrayToBlob embedding = Inr blob \<and> length blob = 4 * length embedding
             \<and> fst (searchVectorInRedis rdb db embedding) = Err (refusal blob)))
   \<and> (list_all (\<lambda>row. row \<noteq> [] \<and> list_all numeric row) rows \<and> n < length rows \<longrightarrow>
        (\<exists>st' db' l ps.
            StoreData keyspace (Inr rows) st dbk = (Ok (), st', db')
          \<and> Atoi (hd (rows ! n)) = Inr l \<and> pixelStrings (tl (rows ! n)) = Inr ps
          \<and> length ps = length (rows ! n) - 1
          \<and> (ps \<noteq> [] \<longrightarrow> Split (Join ps '','') (CHR '','') = ps)
          \<and> map_of db' (key_of (int n) l) = Some (jsonData l (Join ps '',''))))"
proof -
  have a: "\<exists>blob. convertFloat32ArrayToBlob embedding = Inr blob \<and> length blob = 4 * length embedding
             \<and> fst (searchVectorInRedis rdb db embedding) = Err (refusal blob)"
    if srv: "\<forall>b. length b \<noteq> 3136 \<longrightarrow> fst (rdb db (searchQuery b)) = Inl (refusal b)"
      and len: "length embedding \<noteq> 784"
  proof -
    let ?blob = "concat (map (\<lambda>x. le_bytes32 (Float32bits x)) embedding)"
    have l: "length ?blob = 4 * length embedding" by (rule length_blob)
    then have "length ?blob \<noteq> 3136" using len by simp
    then have "fst (rdb db (searchQuery ?blob)) = Inl (refusal ?blob)" using srv by blast
    then have "fst (searchVectorInRedis rdb db embedding) = Err (refusal ?blob)"
      by (cases "rdb db (searchQuery ?blob)")
        (auto simp: searchVectorInRedis_def convertFloat32ArrayToBlob_eq)
    then show ?thesis using l by (simp add: convertFloat32ArrayToBlob_eq)
  qed
  have b: "\<exists>st' db' l ps.
            StoreData keyspace (Inr rows) st dbk = (Ok (), st', db')
          \<and> Atoi (hd (rows ! n)) = Inr l \<and> pixelStrings (tl (rows ! n)) = Inr ps
          \<and> length ps = length (rows ! n) - 1
          \<and> (ps \<noteq> [] \<longrightarrow> Split (Join ps '','') (CHR '','') = ps)
          \<and> map_of db' (key_of (int n) l) = Some (jsonData l (Join ps '',''))"
    if wf: "list_all (\<lambda>row. row \<noteq> [] \<and> list_all numeric row) rows" and n: "n < length rows"
  proof -
    obtain st1 db' where loop: "store_loop keyspace 0 rows st dbk = (Ok (), st1, db')"
      using store_loop_keyspace_accepts [OF wf] by blast
    then have run: "StoreData keyspace (Inr rows) st dbk = (Ok (), print AllStored st1, db')"
      by (simp add: StoreData_def)
    from store_loop_keyspace_stored [OF loop n] obtain l d where
      row: "store_row (int n) (rows ! n) = Ok (l, key_of (int n) l, d)"
      and stored: "map_of db' (key_of (int n) l) = Some d"
      by auto
    from store_row_doc [OF row] obtain ps where
      ps: "Atoi (hd (rows ! n)) = Inr l" "pixelStrings (tl (rows ! n)) = Inr ps"
        "d = jsonData l (Join ps '','')"
      by blast
    have e: "length ps = length (tl (rows ! n))" "list_all (\<lambda>s. CHR '','' \<notin> set s) ps"
      using pixelStrings_entries [OF ps(2)] by simp_all
    have sj: "ps \<noteq> [] \<longrightarrow> Split (Join ps '','') (CHR '','') = ps"
      using Split_Join [of ps "CHR '',''"] e(2) by simp
    show ?thesis using run ps e(1) sj stored by auto
  qed
  show ?thesis using a b by blast
qed

theorem queries_refused_by_server_records_not_witness:
  \<open>fst (searchVectorInRedis (dim784 script) [(Inr (found (key_of 3 7)), 2)] [0, 1]) = Err blob_size_error
   \<and> length [0, 1 :: float32] \<noteq> 784
   \<and> (\<exists>st' db' l ps.
            StoreData keyspace (Inr [[''5'', ''0'', ''255'']]) main_init [] = (Ok (), st', db')
          \<and> Atoi (hd ([[''5'', ''0'', ''255'']] ! 0)) = Inr l
          \<and> pixelStrings (tl ([[''5'', ''0'', ''255'']] ! 0)) = Inr ps
          \<and> length ps = length ([[''5'', ''0'', ''255'' :: string]] ! 0) - 1
          \<and> (ps \<noteq> [] \<longrightarrow> Split (Join ps '','') (CHR '','') = ps)
          \<and> map_of db' (key_of (int 0) l) = Some (jsonData l (Join ps '','')))\<close>
proof -
  have h1: "\<forall>b. length b \<noteq> 3136 \<longrightarrow>
      fst (dim784 script [(Inr (found (key_of 3 7)), 2)] (searchQuery b)) = Inl ((\<lambda>b. blob_size_error) b)"
    by (simp add: dim784_def searchQuery_def)
  have h2: "length [0, 1 :: float32] \<noteq> 784" by simp
  have h3: "list_all (\<lambda>row. row \<noteq> [] \<and> list_all numeric row) [[''5'', ''0'', ''255'']]"
    by code_simp
  have h4: "(0::nat) < length [[''5'', ''0'', ''255'' :: string]]" by simp
  show ?thesis
    using queries_refused_by_server_records_not
      [where rdb = "dim784 script" and db = "[(Inr (found (key_of 3 7)), 2)]"
         and refusal = "\<lambda>b. blob_size_error" and embedding = "[0, 1]"
         and rows = "[[''5'', ''0'', ''255'']]" and n = 0 and st = main_init and dbk = "[]"]
      h1 h2 h3 h4
    by auto
qed

section \<open>The stored pixel and the query pixel\<close>

text \<open>
  C1, as claimed: the value stored for a pixel at ingestion equals the value computed for
  it at query time, and neither path rounds. Not so: for the pixel 1 the query value is
  the float \<open>8421505 / 2^31\<close> (0.0039215688...), while \<^verbatim>\<open>StoreData\<close> stores the text
  \<^verbatim>\<open>0.003922\<close>; the two numbers differ, and still differ when the stored number is rounded to
  a float.
\<close>

theorem stored_pixel_differs_counterexample:
  "normalize_store 1 = ''0.003922''
   \<and> decimal_value (normalize_store 1) = Some (3922 / 1000000)
   \<and> normalize_query 1 = 8421505 / 2147483648
   \<and> decimal_value (normalize_store 1) \<noteq> Some (normalize_query 1)
   \<and> f32_round (3922 / 1000000) \<noteq> normalize_query 1"
  by code_simp

text \<open>
  C1, amended. For a pixel \<open>p\<close> from 0 to 255 the query value is the float quotient
  \<^verbatim>\<open>float32(p) / 255.0\<close>, within \<open>2^-24\<close> of \<open>p/255\<close>; the text stored at ingestion denotes that
  float rounded to six decimals, hence within \<open>5 * 10^-7\<close> of the query value, not equal to it
  in general. The pixel 0 is stored as the text \<^verbatim>\<open>0\<close> and is exactly 0 on both paths.
\<close>

theorem stored_pixel_is_query_pixel_to_six_decimals:
  assumes "0 \<le> p" and "p \<le> 255"
  shows "decimal_value (normalize_store p)
           = Some (of_int (round_even (normalize_query p * 1000000)) / 1000000)
       \<and> \<bar>of_int (round_even (normalize_query p * 1000000)) / 1000000 - normalize_query p\<bar>
           \<le> 1 / 2000000
       \<and> \<bar>normalize_query p - of_int p / 255\<bar> \<le> 1 / 2 ^ 24
       \<and> normalize_store 0 = ''0'' \<and> decimal_value ''0'' = Some 0 \<and> normalize_query 0 = 0"
proof -
  have a: "decimal_value (normalize_store p)
           = Some (of_int (round_even (normalize_query p * 1000000)) / 1000000)"
  proof (cases "p = 0")
    case True
    have "decimal_value ''0'' = Some 0" by code_simp
    moreover have "round_even 0 = 0" by (simp add: round_even_def)
    ultimately show ?thesis using True by (simp add: normalize_store_def normalize_query_0)
  next
    case False
    have "0 \<le> normalize_query p" using assms by (simp add: normalize_query_nonneg)
    then show ?thesis
      using False decimal_value_Sprintf_6f [of "normalize_query p"]
      by (simp add: normalize_store_def normalize_query_def)
  qed
  have "\<bar>of_int (round_even (normalize_query p * 1000000)) - normalize_query p * 1000000\<bar> \<le> 1 / 2"
    by (rule round_even_err)
  then have "\<bar>(of_int (round_even (normalize_query p * 1000000)) - normalize_query p * 1000000) / 1000000\<bar>
      \<le> (1 / 2) / 1000000"
    by (simp only: abs_divide) (simp add: divide_right_mono)
  then have b: "\<bar>of_int (round_even (normalize_query p * 1000000)) / 1000000 - normalize_query p\<bar>
           \<le> 1 / 2000000"
    by (simp add: diff_divide_distrib)
  have c: "normalize_store 0 = ''0''" by (simp add: normalize_store_def)
  have d: "decimal_value ''0'' = Some 0" by code_simp
  have e: "\<bar>normalize_query p - of_int p / 255\<bar> \<le> 1 / 2 ^ 24"
    using assms by (rule normalize_query_err)
  show ?thesis using a b c d e normalize_query_0 by blast
qed

theorem stored_pixel_is_query_pixel_to_six_decimals_witness:
  "(0::int) \<le> 128 \<and> (128::int) \<le> 255
   \<and> decimal_value (normalize_store 128)
        = Some (of_int (round_even (normalize_query 128 * 1000000)) / 1000000)
   \<and> \<bar>of_int (round_even (normalize_query 128 * 1000000)) / 1000000 - normalize_query 128\<bar>
        \<le> 1 / 2000000
   \<and> \<bar>normalize_query 128 - of_int 128 / 255\<bar> \<le> 1 / 2 ^ 24"
proof -
  have h1: "(0::int) \<le> 128" by simp
  have h2: "(128::int) \<le> 255" by simp
  show ?thesis
    using stored_pixel_is_query_pixel_to_six_decimals [OF h1 h2] h1 h2 by blast
qed

end
